theory Spec2Isabelle
  imports Complex_Main
begin

section \<open>The slider component (src/components/slider/component.jsx)\<close>

subsection \<open>JavaScript values\<close>

text \<open>
  The values that can be stored in \<open>this.state.value\<close> and handed to the callbacks:
  \<open>null\<close> (what \<open>calculateValue\<close> returns before the ref is set), \<open>NaN\<close> (what
  \<open>Math.round(0 / 0)\<close> gives) and numbers. Stop indices are integers, so numbers are
  \<open>int\<close>. Pointer coordinates and the bounding rectangle are fractional; they are
  modelled as exact rationals (no rounding error of doubles).
\<close>

datatype jsval = Null | NaN | Num int

text \<open>\<open>ToNumber\<close>: \<open>null\<close> is \<open>0\<close>; the result \<open>None\<close> stands for \<open>NaN\<close>. An
  optional prop that was not supplied is \<open>undefined\<close>, whose number is \<open>NaN\<close> too, so
  a prop of type \<open>int option\<close> is its own \<open>ToNumber\<close>.\<close>

fun toNumber :: "jsval \<Rightarrow> int option" where
  "toNumber Null = Some 0"
| "toNumber NaN = None"
| "toNumber (Num n) = Some n"

text \<open>\<open>a > b\<close> and \<open>a < b\<close> on numbers: false as soon as one side is \<open>NaN\<close>.\<close>

fun js_gt :: "int option \<Rightarrow> int option \<Rightarrow> bool" where
  "js_gt (Some a) (Some b) = (a > b)"
| "js_gt _ _ = False"

fun js_lt :: "int option \<Rightarrow> int option \<Rightarrow> bool" where
  "js_lt (Some a) (Some b) = (a < b)"
| "js_lt _ _ = False"

text \<open>\<open>a !== b\<close>: \<open>NaN\<close> differs from everything, itself included.\<close>

fun js_strict_neq :: "jsval \<Rightarrow> jsval \<Rightarrow> bool" where
  "js_strict_neq NaN _ = True"
| "js_strict_neq _ NaN = True"
| "js_strict_neq a b = (a \<noteq> b)"

text \<open>\<open>v + k\<close> for a number \<open>k\<close>.\<close>

definition js_add :: "jsval \<Rightarrow> int \<Rightarrow> jsval" where
  "js_add v k = (case toNumber v of None \<Rightarrow> NaN | Some n \<Rightarrow> Num (n + k))"

text \<open>\<open>Math.round\<close>: the nearest integer, a tie going up.\<close>

definition Math_round :: "rat \<Rightarrow> int" where
  "Math_round x = \<lfloor>x + 1 / 2\<rfloor>"

subsection \<open>Props, state and the instance\<close>

record props =
  disabled :: bool
  props_value :: int
  minValue :: "int option"
  maxValue :: "int option"
  onSlide :: bool
  onStop :: bool
  stopCount :: int

record state =
  state_value :: jsval
  isHovered :: bool
  isSliding :: bool

text \<open>What \<open>getBoundingClientRect()\<close> returns, as far as \<open>calculateValue\<close> reads it.\<close>

record rect =
  rect_left :: rat
  rect_right :: rat

text \<open>The calls made on the callbacks \<open>props.onSlide\<close> and \<open>props.onStop\<close>, in order.
  The fields \<open>onSlide\<close> and \<open>onStop\<close> of \<open>props\<close> say whether the callback was supplied.\<close>

datatype call = OnSlide jsval | OnStop jsval

text \<open>The listeners the component puts on \<open>document\<close>.\<close>

datatype listener = Mousemove | Mouseup | Touchmove | Touchend

text \<open>A pending \<open>setTimeout\<close>: the time it is due and the order in which timers were
  created (timers due at the same time run in creation order).\<close>

record timer =
  deadline :: int
  seq :: nat

text \<open>The timer behind \<open>this._timeout\<close> together with the value its callback will write to
  \<open>isHovered\<close>.\<close>

record popover_timer = timer +
  opens :: bool

subsection \<open>lodash.debounce and lodash.throttle\<close>

text \<open>
  The component wraps two of its methods with \<open>debounce\<close> and \<open>throttle\<close> of lodash 4.
  Both are one algorithm: \<open>throttle(func, wait)\<close> is
  \<open>debounce(func, wait, {leading: true, maxWait: wait, trailing: true})\<close>. The closure
  variables of \<open>debounce\<close> are the fields of the record below (\<open>lastThis\<close> and \<open>result\<close>
  are left out: the component uses neither), and its inner functions follow one by one.
  A function that ends by calling \<open>func\<close> returns the arguments of that call, which
  the caller then applies; \<open>None\<close> means \<open>func\<close> is not called.
\<close>

record 'a debounced =
  lastArgs :: "'a option"
  timerId :: "timer option"
  lastCallTime :: "int option"
  lastInvokeTime :: int

record options =
  wait :: int
  leading :: bool
  maxWait :: "int option"
  trailing :: bool

definition debounce_options :: "int \<Rightarrow> options" where
  "debounce_options w = \<lparr>wait = w, leading = False, maxWait = None, trailing = True\<rparr>"

definition throttle_options :: "int \<Rightarrow> options" where
  "throttle_options w = \<lparr>wait = w, leading = True, maxWait = Some (max w w), trailing = True\<rparr>"

definition new_debounced :: "'a debounced" where
  "new_debounced = \<lparr>lastArgs = None, timerId = None, lastCallTime = None, lastInvokeTime = 0\<rparr>"

definition invokeFunc :: "int \<Rightarrow> 'a debounced \<Rightarrow> 'a debounced \<times> 'a option" where
  "invokeFunc time d = (d\<lparr>lastArgs := None, lastInvokeTime := time\<rparr>, lastArgs d)"

definition leadingEdge :: "options \<Rightarrow> int \<Rightarrow> nat \<Rightarrow> 'a debounced \<Rightarrow> 'a debounced \<times> 'a option" where
  "leadingEdge opts time q d =
     (let d1 = d\<lparr>lastInvokeTime := time,
                   timerId := Some \<lparr>deadline = time + wait opts, seq = q\<rparr>\<rparr>
      in if leading opts then invokeFunc time d1 else (d1, None))"

text \<open>\<open>remainingWait\<close> is only reached after \<open>shouldInvoke\<close> was false, hence with
  \<open>lastCallTime\<close> set; with \<open>undefined\<close> the delay would be \<open>NaN\<close>, which \<open>setTimeout\<close>
  reads as 0.\<close>

definition remainingWait :: "options \<Rightarrow> int \<Rightarrow> 'a debounced \<Rightarrow> int" where
  "remainingWait opts time d =
     (case lastCallTime d of
        None \<Rightarrow> 0
      | Some lct \<Rightarrow>
          (let timeSinceLastCall = time - lct;
               timeSinceLastInvoke = time - lastInvokeTime d;
               timeWaiting = wait opts - timeSinceLastCall
           in case maxWait opts of
                None \<Rightarrow> timeWaiting
              | Some mw \<Rightarrow> min timeWaiting (mw - timeSinceLastInvoke)))"

definition shouldInvoke :: "options \<Rightarrow> int \<Rightarrow> 'a debounced \<Rightarrow> bool" where
  "shouldInvoke opts time d =
     (case lastCallTime d of
        None \<Rightarrow> True
      | Some lct \<Rightarrow>
          (let timeSinceLastCall = time - lct;
               timeSinceLastInvoke = time - lastInvokeTime d
           in timeSinceLastCall \<ge> wait opts \<or> timeSinceLastCall < 0 \<or>
              (case maxWait opts of None \<Rightarrow> False | Some mw \<Rightarrow> timeSinceLastInvoke \<ge> mw)))"

definition trailingEdge :: "options \<Rightarrow> int \<Rightarrow> 'a debounced \<Rightarrow> 'a debounced \<times> 'a option" where
  "trailingEdge opts time d =
     (let d1 = d\<lparr>timerId := None\<rparr>
      in if trailing opts \<and> lastArgs d1 \<noteq> None then invokeFunc time d1
         else (d1\<lparr>lastArgs := None\<rparr>, None))"

definition timerExpired :: "options \<Rightarrow> int \<Rightarrow> nat \<Rightarrow> 'a debounced \<Rightarrow> 'a debounced \<times> 'a option" where
  "timerExpired opts time q d =
     (if shouldInvoke opts time d then trailingEdge opts time d
      else (d\<lparr>timerId := Some \<lparr>deadline = time + remainingWait opts time d, seq = q\<rparr>\<rparr>, None))"

text \<open>The function \<open>debounce\<close> returns. With \<open>maxWait\<close> and a timer still pending it
  clears that timer and starts a new one (lodash 4.17).\<close>

definition debounced :: "options \<Rightarrow> int \<Rightarrow> nat \<Rightarrow> 'a \<Rightarrow> 'a debounced \<Rightarrow> 'a debounced \<times> 'a option" where
  "debounced opts time q args d =
     (let isInvoking = shouldInvoke opts time d;
          d1 = d\<lparr>lastArgs := Some args, lastCallTime := Some time\<rparr>
      in if isInvoking \<and> timerId d1 = None then leadingEdge opts time q d1
         else if isInvoking \<and> maxWait opts \<noteq> None then
           invokeFunc time (d1\<lparr>timerId := Some \<lparr>deadline = time + wait opts, seq = q\<rparr>\<rparr>)
         else if timerId d1 = None then
           (d1\<lparr>timerId := Some \<lparr>deadline = time + wait opts, seq = q\<rparr>\<rparr>, None)
         else (d1, None))"

subsection \<open>The component instance and its surroundings\<close>

text \<open>
  One record holds the instance (\<open>props\<close>, \<open>state\<close>, the ref \<open>_slider.current\<close>,
  \<open>_timeout\<close>, the closures of the two wrapped methods) and what it acts on: the
  listeners on \<open>document\<close>, the calls received by the parent's callbacks, the clock and
  the counter that numbers the timers.
\<close>

record slider =
  props :: props
  state :: state
  slider_current :: "rect option"
  timeout :: "popover_timer option"
  debouncedKeyInput :: "unit debounced"
  throttledKeyDown :: "string debounced"
  listeners :: "listener list"
  calls :: "call list"
  now :: int
  timer_seq :: nat

text \<open>The field initialisers of the class.\<close>

definition new_slider :: "props \<Rightarrow> slider" where
  "new_slider p =
     \<lparr>props = p,
      state = \<lparr>state_value = Num (props_value p), isHovered = False, isSliding = False\<rparr>,
      slider_current = None, timeout = None,
      debouncedKeyInput = new_debounced, throttledKeyDown = new_debounced,
      listeners = [], calls = [], now = 0, timer_seq = 0\<rparr>"

text \<open>React sets the ref when the element is mounted and resets it to \<open>null\<close> when it is
  unmounted; \<open>setState\<close> on an unmounted component is dropped, together with its callback.\<close>

definition mounted :: "slider \<Rightarrow> bool" where
  "mounted this = (slider_current this \<noteq> None)"

definition setState :: "(state \<Rightarrow> state) \<Rightarrow> slider \<Rightarrow> slider" where
  "setState upd this = (if mounted this then this\<lparr>state := upd (state this)\<rparr> else this)"

definition setState_then :: "(state \<Rightarrow> state) \<Rightarrow> (slider \<Rightarrow> slider) \<Rightarrow> slider \<Rightarrow> slider" where
  "setState_then upd callback this =
     (if mounted this then callback (this\<lparr>state := upd (state this)\<rparr>) else this)"

definition call_onSlide :: "jsval \<Rightarrow> slider \<Rightarrow> slider" where
  "call_onSlide v this =
     (if onSlide (props this) then this\<lparr>calls := calls this @ [OnSlide v]\<rparr> else this)"

definition call_onStop :: "jsval \<Rightarrow> slider \<Rightarrow> slider" where
  "call_onStop v this =
     (if onStop (props this) then this\<lparr>calls := calls this @ [OnStop v]\<rparr> else this)"

text \<open>\<open>document.addEventListener\<close> ignores a listener that is already registered.\<close>

definition addEventListener :: "listener \<Rightarrow> slider \<Rightarrow> slider" where
  "addEventListener l this =
     (if l \<in> set (listeners this) then this else this\<lparr>listeners := listeners this @ [l]\<rparr>)"

definition removeEventListener :: "listener \<Rightarrow> slider \<Rightarrow> slider" where
  "removeEventListener l this = this\<lparr>listeners := removeAll l (listeners this)\<rparr>"

definition setTimeout_popover :: "bool \<Rightarrow> int \<Rightarrow> slider \<Rightarrow> slider" where
  "setTimeout_popover isOpen delay this =
     this\<lparr>timeout := Some \<lparr>deadline = now this + delay, seq = timer_seq this, opens = isOpen\<rparr>,
          timer_seq := Suc (timer_seq this)\<rparr>"

definition clearTimeout_popover :: "slider \<Rightarrow> slider" where
  "clearTimeout_popover this = this\<lparr>timeout := None\<rparr>"

subsection \<open>The methods of the component\<close>

definition componentWillReceiveProps :: "props \<Rightarrow> slider \<Rightarrow> slider" where
  "componentWillReceiveProps nextProps this =
     (if js_strict_neq (Num (props_value nextProps)) (state_value (state this))
      then setState (\<lambda>st. st\<lparr>state_value := Num (props_value nextProps)\<rparr>) this
      else this)"

definition componentWillUnmount :: "slider \<Rightarrow> slider" where
  "componentWillUnmount this =
     (if timeout this \<noteq> None then clearTimeout_popover this else this)"

text \<open>With a rectangle of width 0 the clamped position is 0 as well, and \<open>0 / 0\<close> is
  \<open>NaN\<close>, which \<open>Math.round\<close> and both comparisons let through.\<close>

definition calculateValue :: "slider \<Rightarrow> rat \<Rightarrow> jsval" where
  "calculateValue this clientX =
     (case slider_current this of
        None \<Rightarrow> Null
      | Some rect \<Rightarrow>
          (let width = rect_right rect - rect_left rect;
               pos = clientX - rect_left rect;
               clampedX = min (max 0 pos) width;
               newValue = (if width = 0 then NaN
                           else Num (Math_round
                                  ((clampedX / width) * of_int (stopCount (props this) - 1))))
           in if js_gt (toNumber newValue) (maxValue (props this))
              then (case maxValue (props this) of Some m \<Rightarrow> Num m | None \<Rightarrow> newValue)
              else if js_lt (toNumber newValue) (minValue (props this))
              then (case minValue (props this) of Some m \<Rightarrow> Num m | None \<Rightarrow> newValue)
              else newValue))"

definition handleTogglePopover :: "bool \<Rightarrow> int \<Rightarrow> slider \<Rightarrow> slider" where
  "handleTogglePopover isOpen delay this =
     (if \<not> isOpen then
        setTimeout_popover False delay
          (if timeout this \<noteq> None then clearTimeout_popover this else this)
      else
        setTimeout_popover True delay
          (if timeout this \<noteq> None then clearTimeout_popover this else this))"

text \<open>A touch event is given by \<open>event.touches[0].clientX\<close>, a mouse event by its
  \<open>button\<close> and \<open>clientX\<close>. What the handlers do to the event itself
  (\<open>preventDefault\<close>, \<open>persist\<close>) is not part of the model.\<close>

record mouse_event =
  button :: int
  clientX :: rat

definition handleTouchMove :: "rat \<Rightarrow> slider \<Rightarrow> slider" where
  "handleTouchMove touch_clientX this =
     (if disabled (props this) then this
      else
        (let v = calculateValue this touch_clientX
         in if js_strict_neq (state_value (state this)) v
            then setState (\<lambda>st. st\<lparr>state_value := v\<rparr>) (call_onSlide v this)
            else this))"

definition handleTouchStart :: "rat \<Rightarrow> slider \<Rightarrow> slider" where
  "handleTouchStart touch_clientX this =
     (if disabled (props this) then this
      else
        handleTouchMove touch_clientX
          (setState (\<lambda>st. st\<lparr>isHovered := True, isSliding := True\<rparr>)
            (addEventListener Touchend (addEventListener Touchmove this))))"

definition handleTouchEnd :: "slider \<Rightarrow> slider" where
  "handleTouchEnd this =
     (if disabled (props this) then this
      else
        (let this1 = removeEventListener Touchend (removeEventListener Touchmove this);
             this2 = call_onStop (state_value (state this1)) this1;
             this3 = setState (\<lambda>st. st\<lparr>isSliding := False\<rparr>) this2
         in handleTogglePopover False 250 this3))"

definition handleMouseMove :: "mouse_event \<Rightarrow> slider \<Rightarrow> slider" where
  "handleMouseMove event this =
     (if disabled (props this) then this
      else
        (let v = calculateValue this (clientX event)
         in if js_strict_neq (state_value (state this)) v
            then setState (\<lambda>st. st\<lparr>state_value := v, isHovered := True\<rparr>) (call_onSlide v this)
            else this))"

definition handleMouseDown :: "mouse_event \<Rightarrow> slider \<Rightarrow> slider" where
  "handleMouseDown event this =
     (if disabled (props this) then this
      else if button event \<noteq> 0 \<or> isSliding (state this) then this
      else
        handleMouseMove event
          (setState (\<lambda>st. st\<lparr>isHovered := True, isSliding := True\<rparr>)
            (addEventListener Mouseup (addEventListener Mousemove this))))"

definition handleMouseUp :: "slider \<Rightarrow> slider" where
  "handleMouseUp this =
     (if disabled (props this) then this
      else
        (let this1 = removeEventListener Mouseup (removeEventListener Mousemove this);
             this2 = call_onStop (state_value (state this1)) this1;
             this3 = setState (\<lambda>st. st\<lparr>isSliding := False\<rparr>) this2
         in handleTogglePopover False 0 this3))"

text \<open>The function given to \<open>debounce\<close>, and the debounced method: \<open>debounce(..., 250)\<close>.\<close>

definition handleDebouncedKeyInput_func :: "slider \<Rightarrow> slider" where
  "handleDebouncedKeyInput_func this =
     (let this1 = handleTogglePopover False 150 this
      in call_onStop (state_value (state this1)) this1)"

definition handleDebouncedKeyInput :: "slider \<Rightarrow> slider" where
  "handleDebouncedKeyInput this =
     (let (d, invoke) = debounced (debounce_options 250) (now this) (timer_seq this) ()
                          (debouncedKeyInput this);
          this1 = this\<lparr>debouncedKeyInput := d, timer_seq := Suc (timer_seq this)\<rparr>
      in case invoke of None \<Rightarrow> this1 | Some _ \<Rightarrow> handleDebouncedKeyInput_func this1)"

text \<open>The function given to \<open>throttle\<close>, and the throttled method: \<open>throttle(..., 50)\<close>.
  The event is given by \<open>event.key\<close>.\<close>

definition handleThrottledKeyDown_func :: "string \<Rightarrow> slider \<Rightarrow> slider" where
  "handleThrottledKeyDown_func key this =
     (let currentValue = state_value (state this)
      in if disabled (props this) then
           setState_then (\<lambda>st. st\<lparr>isHovered := True\<rparr>) (handleTogglePopover False 400) this
         else if key = ''ArrowDown'' \<or> key = ''ArrowRight'' then
           (let newValue = js_add currentValue 1;
                v = (if js_gt (toNumber newValue) (maxValue (props this))
                     then (case maxValue (props this) of Some m \<Rightarrow> Num m | None \<Rightarrow> newValue)
                     else if js_gt (toNumber newValue) (Some (stopCount (props this) - 1))
                     then Num (stopCount (props this) - 1)
                     else newValue)
            in setState_then (\<lambda>st. st\<lparr>state_value := v, isHovered := True\<rparr>)
                 (\<lambda>this'. call_onSlide v (handleDebouncedKeyInput this')) this)
         else if key = ''ArrowUp'' \<or> key = ''ArrowLeft'' then
           (let newValue = js_add currentValue (- 1);
                v = (if js_lt (toNumber newValue) (minValue (props this))
                     then (case minValue (props this) of Some m \<Rightarrow> Num m | None \<Rightarrow> newValue)
                     else if js_lt (toNumber newValue) (Some 0)
                     then Num 0
                     else newValue)
            in setState_then (\<lambda>st. st\<lparr>state_value := v, isHovered := True\<rparr>)
                 (\<lambda>this'. call_onSlide v (handleDebouncedKeyInput this')) this)
         else this)"

definition handleThrottledKeyDown :: "string \<Rightarrow> slider \<Rightarrow> slider" where
  "handleThrottledKeyDown key this =
     (let (d, invoke) = debounced (throttle_options 50) (now this) (timer_seq this) key
                          (throttledKeyDown this);
          this1 = this\<lparr>throttledKeyDown := d, timer_seq := Suc (timer_seq this)\<rparr>
      in case invoke of None \<Rightarrow> this1 | Some k \<Rightarrow> handleThrottledKeyDown_func k this1)"

definition handleKeyDown :: "string \<Rightarrow> slider \<Rightarrow> slider" where
  "handleKeyDown key this =
     (if key = ''Tab'' \<or> key = ''Escape'' then this else handleThrottledKeyDown key this)"

definition handleMouseEnter :: "slider \<Rightarrow> slider" where
  "handleMouseEnter this = handleTogglePopover True 0 this"

definition handleMouseLeave :: "slider \<Rightarrow> slider" where
  "handleMouseLeave this = handleTogglePopover False 0 this"

subsection \<open>Timers and the event loop\<close>

text \<open>The callbacks of the three kinds of timer the instance can have pending: the one of
  \<open>handleTogglePopover\<close>, and \<open>timerExpired\<close> of each of the two wrapped methods.\<close>

datatype timer_kind = PopoverTimer | DebounceTimer | ThrottleTimer

definition fire :: "timer_kind \<Rightarrow> slider \<Rightarrow> slider" where
  "fire k this =
     (case k of
        PopoverTimer \<Rightarrow>
          (case timeout this of
             None \<Rightarrow> this
           | Some t \<Rightarrow> (setState (\<lambda>st. st\<lparr>isHovered := opens t\<rparr>) this)\<lparr>timeout := None\<rparr>)
      | DebounceTimer \<Rightarrow>
          (let (d, invoke) = timerExpired (debounce_options 250) (now this) (timer_seq this)
                               (debouncedKeyInput this);
               this1 = this\<lparr>debouncedKeyInput := d, timer_seq := Suc (timer_seq this)\<rparr>
           in case invoke of None \<Rightarrow> this1 | Some _ \<Rightarrow> handleDebouncedKeyInput_func this1)
      | ThrottleTimer \<Rightarrow>
          (let (d, invoke) = timerExpired (throttle_options 50) (now this) (timer_seq this)
                               (throttledKeyDown this);
               this1 = this\<lparr>throttledKeyDown := d, timer_seq := Suc (timer_seq this)\<rparr>
           in case invoke of None \<Rightarrow> this1 | Some k \<Rightarrow> handleThrottledKeyDown_func k this1))"

text \<open>The pending timers, and among those that are due the one to run next: the
  earliest deadline, then the earliest created.\<close>

definition pending :: "slider \<Rightarrow> (timer_kind \<times> int \<times> nat) list" where
  "pending this =
     (case timeout this of None \<Rightarrow> [] | Some t \<Rightarrow> [(PopoverTimer, deadline t, seq t)]) @
     (case timerId (debouncedKeyInput this) of
        None \<Rightarrow> [] | Some t \<Rightarrow> [(DebounceTimer, deadline t, seq t)]) @
     (case timerId (throttledKeyDown this) of
        None \<Rightarrow> [] | Some t \<Rightarrow> [(ThrottleTimer, deadline t, seq t)])"

definition runs_before :: "timer_kind \<times> int \<times> nat \<Rightarrow> timer_kind \<times> int \<times> nat \<Rightarrow> bool" where
  "runs_before a b =
     (fst (snd a) < fst (snd b) \<or> (fst (snd a) = fst (snd b) \<and> snd (snd a) < snd (snd b)))"

definition next_due :: "slider \<Rightarrow> timer_kind option" where
  "next_due this =
     (case filter (\<lambda>t. fst (snd t) \<le> now this) (pending this) of
        [] \<Rightarrow> None
      | t # ts \<Rightarrow> Some (fst (fold (\<lambda>a b. if runs_before a b then a else b) ts t)))"

definition run_next :: "slider \<Rightarrow> slider" where
  "run_next this = (case next_due this of None \<Rightarrow> this | Some k \<Rightarrow> fire k this)"

text \<open>One millisecond passes, then the timers that are due run. A timer callback
  starts timers with a positive delay only, so each of the three kinds runs at most once.\<close>

definition tick :: "slider \<Rightarrow> slider" where
  "tick this = run_next (run_next (run_next (this\<lparr>now := now this + 1\<rparr>)))"

definition advance :: "nat \<Rightarrow> slider \<Rightarrow> slider" where
  "advance n this = (tick ^^ n) this"

subsection \<open>Events\<close>

text \<open>
  What can happen to the instance. React delivers an event to a handler given in
  \<open>render\<close> (\<open>onMouseDown\<close>, \<open>onTouchStart\<close>, \<open>onKeyDown\<close>, the two hover handlers) while the
  component is mounted; \<open>document\<close> delivers an event to the listeners registered for it.
\<close>

datatype event =
    MouseDown mouse_event
  | MouseMove mouse_event
  | MouseUp
  | TouchStart rat
  | TouchMove rat
  | TouchEnd
  | KeyDown string
  | MouseEnter
  | MouseLeave
  | ReceiveProps props
  | Layout rect
  | Unmount
  | Wait nat

definition step :: "event \<Rightarrow> slider \<Rightarrow> slider" where
  "step e this =
     (case e of
        MouseDown ev \<Rightarrow> if mounted this then handleMouseDown ev this else this
      | MouseMove ev \<Rightarrow> if Mousemove \<in> set (listeners this) then handleMouseMove ev this else this
      | MouseUp \<Rightarrow> if Mouseup \<in> set (listeners this) then handleMouseUp this else this
      | TouchStart x \<Rightarrow> if mounted this then handleTouchStart x this else this
      | TouchMove x \<Rightarrow> if Touchmove \<in> set (listeners this) then handleTouchMove x this else this
      | TouchEnd \<Rightarrow> if Touchend \<in> set (listeners this) then handleTouchEnd this else this
      | KeyDown key \<Rightarrow> if mounted this then handleKeyDown key this else this
      | MouseEnter \<Rightarrow> if mounted this then handleMouseEnter this else this
      | MouseLeave \<Rightarrow> if mounted this then handleMouseLeave this else this
      | ReceiveProps nextProps \<Rightarrow>
          if mounted this then (componentWillReceiveProps nextProps this)\<lparr>props := nextProps\<rparr>
          else this
      | Layout r \<Rightarrow> if mounted this then this\<lparr>slider_current := Some r\<rparr> else this
      | Unmount \<Rightarrow> (componentWillUnmount this)\<lparr>slider_current := None\<rparr>
      | Wait n \<Rightarrow> advance n this)"

definition run :: "event list \<Rightarrow> slider \<Rightarrow> slider" where
  "run es this = fold step es this"

text \<open>A freshly mounted slider.\<close>

definition mount :: "rect \<Rightarrow> props \<Rightarrow> slider" where
  "mount r p = (new_slider p)\<lparr>slider_current := Some r\<rparr>"

subsection \<open>The value mapper as specified\<close>






subsection \<open>Example configurations\<close>

text \<open>Ten stops with the bounds 2 and 8, the value 5, both callbacks supplied; the
  same without bounds; a track 90 pixels wide and one of width 0; a mouse event of
  the primary button.\<close>

definition bounded_props :: props where
  "bounded_props =
     \<lparr>disabled = False, props_value = 5, minValue = Some 2, maxValue = Some 8,
      onSlide = True, onStop = True, stopCount = 10\<rparr>"

definition unbounded_props :: props where
  "unbounded_props =
     \<lparr>disabled = False, props_value = 5, minValue = None, maxValue = None,
      onSlide = True, onStop = True, stopCount = 10\<rparr>"

definition track_rect :: rect where
  "track_rect = \<lparr>rect_left = 0, rect_right = 90\<rparr>"

definition collapsed_rect :: rect where
  "collapsed_rect = \<lparr>rect_left = 10, rect_right = 10\<rparr>"

definition primary_at :: "rat \<Rightarrow> mouse_event" where
  "primary_at x = \<lparr>button = 0, clientX = x\<rparr>"

text \<open>A drag started at \<open>clientX = 33\<close> and the slider unmounted before the button is
  released: the listeners of the drag are still on \<open>document\<close>.\<close>

definition unmounted_mid_drag :: slider where
  "unmounted_mid_drag = run [MouseDown (primary_at 33), Unmount] (mount track_rect bounded_props)"

text \<open>A slider whose value is already the upper bound.\<close>

definition at_upper_bound :: slider where
  "at_upper_bound = mount track_rect (bounded_props\<lparr>props_value := 8\<rparr>)"


definition five_presses :: "event list" where
  "five_presses =
     [KeyDown ''ArrowRight'', Wait 10, KeyDown ''ArrowRight'', Wait 10, KeyDown ''ArrowRight'',
      Wait 10, KeyDown ''ArrowRight'', Wait 10, KeyDown ''ArrowRight'']"

text \<open>A drag during which the parent disables the slider.\<close>

definition disabled_mid_drag :: "event list" where
  "disabled_mid_drag =
     [MouseDown (primary_at 33), ReceiveProps (bounded_props\<lparr>disabled := True\<rparr>), MouseUp]"

subsection \<open>Vocabulary of the properties\<close>

text \<open>The ends of the range the arrow keys move in, as the specification gives them:
  \<open>min(maxValue, stopCount - 1)\<close> and \<open>max(minValue, 0)\<close>, a bound that is not set
  dropping out.\<close>

definition upper_stop :: "props \<Rightarrow> int" where
  "upper_stop p =
     (case maxValue p of Some m \<Rightarrow> min m (stopCount p - 1) | None \<Rightarrow> stopCount p - 1)"


text \<open>The four keys the throttled function reacts to, the value either of its arrow
  branches computes from \<open>currentValue\<close> (\<open>forward\<close> is the branch of
  \<open>ArrowDown\<close>/\<open>ArrowRight\<close>), and the \<open>onSlide\<close> call its callback makes.\<close>

definition arrow :: "string \<Rightarrow> bool" where
  "arrow key = (key \<in> {''ArrowDown'', ''ArrowRight'', ''ArrowUp'', ''ArrowLeft''})"

definition forward :: "props \<Rightarrow> jsval \<Rightarrow> jsval" where
  "forward p currentValue =
     (let newValue = js_add currentValue 1
      in if js_gt (toNumber newValue) (maxValue p)
         then (case maxValue p of Some m \<Rightarrow> Num m | None \<Rightarrow> newValue)
         else if js_gt (toNumber newValue) (Some (stopCount p - 1))
         then Num (stopCount p - 1)
         else newValue)"

definition key_value :: "props \<Rightarrow> string \<Rightarrow> jsval \<Rightarrow> jsval" where
  "key_value p key currentValue =
     (if key = ''ArrowDown'' \<or> key = ''ArrowRight'' then
        (let newValue = js_add currentValue 1
         in if js_gt (toNumber newValue) (maxValue p)
            then (case maxValue p of Some m \<Rightarrow> Num m | None \<Rightarrow> newValue)
            else if js_gt (toNumber newValue) (Some (stopCount p - 1))
            then Num (stopCount p - 1)
            else newValue)
      else
        (let newValue = js_add currentValue (- 1)
         in if js_lt (toNumber newValue) (minValue p)
            then (case minValue p of Some m \<Rightarrow> Num m | None \<Rightarrow> newValue)
            else if js_lt (toNumber newValue) (Some 0)
            then Num 0
            else newValue))"




text \<open>The events that start a drag, the end event that matches a start event, and what
  happens between the two: moves, and time passing.\<close>

fun is_start :: "event \<Rightarrow> bool" where
  "is_start (MouseDown ev) = (button ev = 0)"
| "is_start (TouchStart _) = True"
| "is_start _ = False"

fun matching_end :: "event \<Rightarrow> event \<Rightarrow> bool" where
  "matching_end (MouseDown _) MouseUp = True"
| "matching_end (TouchStart _) TouchEnd = True"
| "matching_end _ _ = False"



text \<open>Events that leave the slider mounted and enabled.\<close>

fun keeps_enabled :: "event \<Rightarrow> bool" where
  "keeps_enabled (ReceiveProps q) = (\<not> disabled q)"
| "keeps_enabled Unmount = False"
| "keeps_enabled _ = True"

text \<open>The deadline of the pending timer that is due first.\<close>

definition earliest_deadline :: "slider \<Rightarrow> int option" where
  "earliest_deadline this =
     (case map (\<lambda>t. fst (snd t)) (pending this) of
        [] \<Rightarrow> None
      | d # ds \<Rightarrow> Some (fold min ds d))"

text \<open>No timer of the keyboard path is pending.\<close>

definition keyboard_idle :: "slider \<Rightarrow> bool" where
  "keyboard_idle this =
     (timerId (debouncedKeyInput this) = None \<and> timerId (throttledKeyDown this) = None)"

subsection \<open>Invariants\<close>


text \<open>After the events \<open>es\<close>: if \<open>isSliding\<close> is set, some start event of \<open>es\<close> has no
  matching end event after it, and the listener for that end event is registered.\<close>

definition sliding_inv :: "event list \<Rightarrow> slider \<Rightarrow> bool" where
  "sliding_inv es this =
     (mounted this \<and> \<not> disabled (props this) \<and>
      (isSliding (state this) \<longrightarrow>
         (\<exists>es1 e es2. es = es1 @ e # es2 \<and> is_start e \<and> (\<forall>e'\<in>set es2. \<not> matching_end e e') \<and>
            ((\<exists>ev. e = MouseDown ev) \<longrightarrow> Mouseup \<in> set (listeners this)) \<and>
            ((\<exists>x. e = TouchStart x) \<longrightarrow> Touchend \<in> set (listeners this)))))"

text \<open>No keyboard timer is pending, the calls made are \<open>cs\<close> and the value is \<open>v\<close>.\<close>

definition quiet :: "call list \<Rightarrow> jsval \<Rightarrow> slider \<Rightarrow> bool" where
  "quiet cs v this = (keyboard_idle this \<and> calls this = cs \<and> state_value (state this) = v)"

text \<open>The slider within 50 ms of a first key press at time 0 on a fresh mount, both
  callbacks supplied: \<open>v\<close> is the value after that press, \<open>a\<close> and \<open>c\<close> are the arguments and
  the time of the last call of the throttled method, \<open>t\<close> is the clock and \<open>q\<close> the timer
  counter.\<close>

definition in_burst :: "props \<Rightarrow> rect \<Rightarrow> jsval \<Rightarrow> string option \<Rightarrow> int \<Rightarrow> int \<Rightarrow> nat \<Rightarrow> slider" where
  "in_burst p r v a c t q =
     \<lparr>props = p,
      state = \<lparr>state_value = v, isHovered = True, isSliding = False\<rparr>,
      slider_current = Some r, timeout = None,
      debouncedKeyInput =
        \<lparr>lastArgs = Some (), timerId = Some \<lparr>deadline = 250, seq = 1\<rparr>,
         lastCallTime = Some 0, lastInvokeTime = 0\<rparr>,
      throttledKeyDown =
        \<lparr>lastArgs = a, timerId = Some \<lparr>deadline = 50, seq = 0\<rparr>,
         lastCallTime = Some c, lastInvokeTime = 0\<rparr>,
      listeners = [], calls = [OnSlide v], now = t, timer_seq = q\<rparr>"

text \<open>The same slider at time 50, after the throttle timer has run the function with
  \<open>ArrowRight\<close>.\<close>

definition after_burst :: "props \<Rightarrow> rect \<Rightarrow> jsval \<Rightarrow> int \<Rightarrow> nat \<Rightarrow> slider" where
  "after_burst p r v c q =
     \<lparr>props = p,
      state = \<lparr>state_value = forward p v, isHovered = True, isSliding = False\<rparr>,
      slider_current = Some r, timeout = None,
      debouncedKeyInput =
        \<lparr>lastArgs = Some (), timerId = Some \<lparr>deadline = 250, seq = 1\<rparr>,
         lastCallTime = Some 50, lastInvokeTime = 0\<rparr>,
      throttledKeyDown =
        \<lparr>lastArgs = None, timerId = None, lastCallTime = Some c, lastInvokeTime = 50\<rparr>,
      listeners = [], calls = [OnSlide v, OnSlide (forward p v)], now = 50, timer_seq = q\<rparr>"




text \<open>The kinds of timer that are due, from the list of pending timers and from the
  fields that hold them.\<close>

definition due_kinds :: "slider \<Rightarrow> timer_kind set" where
  "due_kinds this = fst ` set (filter (\<lambda>t. fst (snd t) \<le> now this) (pending this))"

definition due_of ::
  "int \<Rightarrow> popover_timer option \<Rightarrow> timer option \<Rightarrow> timer option \<Rightarrow> timer_kind set" where
  "due_of t po de th =
     {k. (k = PopoverTimer \<and> (\<exists>x. po = Some x \<and> deadline x \<le> t)) \<or>
         (k = DebounceTimer \<and> (\<exists>x. de = Some x \<and> deadline x \<le> t)) \<or>
         (k = ThrottleTimer \<and> (\<exists>x. th = Some x \<and> deadline x \<le> t))}"

section \<open>Properties\<close>

lemma floor_rat_numeral: "\<lfloor>numeral a / numeral b :: rat\<rfloor> = numeral a div numeral b"
  by (metis floor_divide_of_int_eq of_int_numeral)

lemmas js_defs = js_add_def Math_round_def floor_rat_numeral

lemmas lodash_defs =
  debounce_options_def throttle_options_def new_debounced_def invokeFunc_def leadingEdge_def
  remainingWait_def shouldInvoke_def trailingEdge_def timerExpired_def debounced_def

lemmas effect_defs =
  mounted_def setState_def setState_then_def call_onSlide_def call_onStop_def
  addEventListener_def removeEventListener_def setTimeout_popover_def clearTimeout_popover_def

lemmas handler_defs =
  componentWillReceiveProps_def componentWillUnmount_def handleTogglePopover_def
  handleTouchMove_def handleTouchStart_def handleTouchEnd_def
  handleMouseMove_def handleMouseDown_def handleMouseUp_def
  handleDebouncedKeyInput_func_def handleDebouncedKeyInput_def
  handleThrottledKeyDown_func_def handleThrottledKeyDown_def handleKeyDown_def
  handleMouseEnter_def handleMouseLeave_def

lemmas example_defs =
  bounded_props_def unbounded_props_def track_rect_def collapsed_rect_def primary_at_def
  mount_def new_slider_def

subsection \<open>The value mapper\<close>









subsection \<open>Mouse-down that starts no drag\<close>

text \<open>
  Claim C10: a mouse-down whose button is not the primary one, or that arrives while
  \<open>isSliding\<close> is true, leaves everything as it was: the state, the listeners on
  \<open>document\<close>, the calls made on the callbacks and the timers.
\<close>

theorem handleMouseDown_ignored:
  assumes "button event \<noteq> 0 \<or> isSliding (state this)"
  shows "handleMouseDown event this = this"
  using assms by (simp add: handleMouseDown_def)

theorem handleMouseDown_ignored_witness:
  "button \<lparr>button = 2, clientX = 33\<rparr> \<noteq> 0 \<and>
   handleMouseDown \<lparr>button = 2, clientX = 33\<rparr> (mount track_rect bounded_props)
     = mount track_rect bounded_props \<and>
   isSliding (state (handleMouseDown (primary_at 33) (mount track_rect bounded_props))) \<and>
   handleMouseDown (primary_at 60) (handleMouseDown (primary_at 33) (mount track_rect bounded_props))
     = handleMouseDown (primary_at 33) (mount track_rect bounded_props)"
  using handleMouseDown_ignored[of "\<lparr>button = 2, clientX = 33\<rparr>" "mount track_rect bounded_props"]
    handleMouseDown_ignored[of "primary_at 60"
      "handleMouseDown (primary_at 33) (mount track_rect bounded_props)"]
  by (simp add: example_defs handler_defs effect_defs calculateValue_def Let_def js_defs floor_eq_iff)

subsection \<open>The value mapper without a bounding rectangle\<close>

text \<open>
  Claim C2 asks that a caller of \<open>calculateValue\<close> ignores the event when the result
  is \<open>null\<close>. Evaluated on the slider that was unmounted during a drag: \<open>calculateValue\<close>
  returns \<open>null\<close>, the move listener is still registered, and the next move hands
  \<open>null\<close> to \<open>onSlide\<close>; \<open>handleTouchMove\<close> does the same.
\<close>

theorem null_value_is_reported:
  "calculateValue unmounted_mid_drag 60 = Null \<and>
   Mousemove \<in> set (listeners unmounted_mid_drag) \<and>
   calls unmounted_mid_drag = [OnSlide (Num 3)] \<and>
   calls (step (MouseMove (primary_at 60)) unmounted_mid_drag) = [OnSlide (Num 3), OnSlide Null] \<and>
   calls (handleTouchMove 60 unmounted_mid_drag) = [OnSlide (Num 3), OnSlide Null]"
  by (simp add: unmounted_mid_drag_def run_def step_def example_defs handler_defs effect_defs
      calculateValue_def Let_def js_defs floor_eq_iff)

subsection \<open>An arrow key at the bound\<close>

text \<open>
  Claim C3 asks that \<open>onSlide\<close> is never invoked when a handler leaves the value
  unchanged. Evaluated on the slider at its upper bound 8: \<open>ArrowRight\<close> leaves the value
  at 8 and \<open>onSlide(8)\<close> is invoked all the same; the keyboard handler has no comparison
  with the current value, which the move handlers have.
\<close>

theorem onSlide_without_change:
  "state_value (state at_upper_bound) = Num 8 \<and>
   state_value (state (handleKeyDown ''ArrowRight'' at_upper_bound)) = Num 8 \<and>
   calls at_upper_bound = [] \<and>
   calls (handleKeyDown ''ArrowRight'' at_upper_bound) = [OnSlide (Num 8)]"
  by (simp add: at_upper_bound_def example_defs handler_defs effect_defs lodash_defs Let_def
      js_defs)

subsection \<open>Passing time\<close>

lemmas timer_defs =
  fire_def pending_def runs_before_def next_due_def run_next_def tick_def earliest_deadline_def

lemma pending_now [simp]: "pending (s\<lparr>now := t\<rparr>) = pending s"
  by (simp add: pending_def)

lemma fold_min_le: "fold min ds (d::int) \<le> d \<and> (\<forall>x\<in>set ds. fold min ds d \<le> x)"
proof (induction ds arbitrary: d)
  case Nil
  then show ?case by simp
next
  case (Cons a ds)
  have "fold min ds (min a d) \<le> min a d" using Cons.IH[of "min a d"] by blast
  moreover have "\<forall>x\<in>set ds. fold min ds (min a d) \<le> x" using Cons.IH[of "min a d"] by blast
  ultimately show ?case by auto
qed

lemma earliest_deadline_None: "earliest_deadline s = None \<Longrightarrow> pending s = []"
  by (simp add: earliest_deadline_def split: list.splits)

lemma earliest_deadline_Some:
  assumes "earliest_deadline s = Some d" "t \<in> set (pending s)"
  shows "d \<le> fst (snd t)"
proof -
  from assms(1) obtain d0 ds
    where m: "map (\<lambda>t. fst (snd t)) (pending s) = d0 # ds" and d: "d = fold min ds d0"
    by (auto simp: earliest_deadline_def split: list.splits)
  from assms(2) have "fst (snd t) \<in> set (map (\<lambda>t. fst (snd t)) (pending s))" by force
  then have "fst (snd t) = d0 \<or> fst (snd t) \<in> set ds" unfolding m by simp
  then show ?thesis using fold_min_le[of ds d0] d by auto
qed

lemma run_next_idle:
  assumes "\<forall>t\<in>set (pending s). now s < fst (snd t)"
  shows "run_next s = s"
proof -
  have "filter (\<lambda>t. fst (snd t) \<le> now s) (pending s) = []"
    using assms by (auto simp: filter_empty_conv)
  then show ?thesis by (simp add: run_next_def next_due_def)
qed

lemma tick_idle:
  assumes "\<forall>t\<in>set (pending s). now s + 1 < fst (snd t)"
  shows "tick s = s\<lparr>now := now s + 1\<rparr>"
proof -
  have "run_next (s\<lparr>now := now s + 1\<rparr>) = s\<lparr>now := now s + 1\<rparr>"
    using assms by (intro run_next_idle) simp
  then show ?thesis by (simp add: tick_def)
qed

lemma advance_0 [simp]: "advance 0 s = s"
  by (simp add: advance_def)

lemma advance_Suc: "advance (Suc n) s = advance n (tick s)"
  by (simp add: advance_def funpow_swap1)

lemma advance_add: "advance (m + n) s = advance n (advance m s)"
  unfolding advance_def by (subst add.commute) (simp add: funpow_add)

text \<open>While no timer is due, only the clock moves.\<close>

lemma advance_idle:
  assumes "\<forall>t\<in>set (pending s). now s + int n < fst (snd t)"
  shows "advance n s = s\<lparr>now := now s + int n\<rparr>"
  using assms
proof (induction n arbitrary: s)
  case 0
  then show ?case by simp
next
  case (Suc n)
  have t: "tick s = s\<lparr>now := now s + 1\<rparr>"
    using Suc.prems by (intro tick_idle) force
  have "advance n (s\<lparr>now := now s + 1\<rparr>)
          = (s\<lparr>now := now s + 1\<rparr>)\<lparr>now := now (s\<lparr>now := now s + 1\<rparr>) + int n\<rparr>"
    using Suc.prems by (intro Suc.IH) force
  then show ?case by (simp add: advance_Suc t add.commute add.left_commute)
qed

text \<open>Waiting, computed from one deadline to the next.\<close>

lemma advance_eval:
  "advance n s =
     (if n = 0 then s
      else case earliest_deadline s of
        None \<Rightarrow> s\<lparr>now := now s + int n\<rparr>
      | Some d \<Rightarrow>
          if now s + int n < d then s\<lparr>now := now s + int n\<rparr>
          else if d \<le> now s then advance (n - 1) (tick s)
          else advance (n - nat (d - now s)) (tick (s\<lparr>now := d - 1\<rparr>)))"
proof (cases "n = 0")
  case True
  then show ?thesis by simp
next
  case n: False
  show ?thesis
  proof (cases "earliest_deadline s")
    case None
    then have "pending s = []" by (rule earliest_deadline_None)
    then have "advance n s = s\<lparr>now := now s + int n\<rparr>" by (intro advance_idle) simp
    with n None show ?thesis by simp
  next
    case (Some d)
    show ?thesis
    proof (cases "now s + int n < d")
      case True
      have "advance n s = s\<lparr>now := now s + int n\<rparr>"
        using earliest_deadline_Some[OF Some] True by (intro advance_idle) force
      with n Some True show ?thesis by simp
    next
      case far: False
      show ?thesis
      proof (cases "d \<le> now s")
        case True
        from n obtain m where "n = Suc m" by (cases n) auto
        then have "advance n s = advance (n - 1) (tick s)" by (simp add: advance_Suc)
        with n Some far True show ?thesis by simp
      next
        case False
        define k where "k = nat (d - now s) - 1"
        have kk: "int k = d - now s - 1" using False by (simp add: k_def)
        have split: "n = k + Suc (n - nat (d - now s))" using far False by (simp add: k_def)
        have "advance k s = s\<lparr>now := now s + int k\<rparr>"
          using earliest_deadline_Some[OF Some] kk by (intro advance_idle) force
        then have "advance k s = s\<lparr>now := d - 1\<rparr>" by (simp add: kk)
        moreover have "advance n s = advance (Suc (n - nat (d - now s))) (advance k s)"
          by (subst split) (rule advance_add)
        ultimately have "advance n s = advance (n - nat (d - now s)) (tick (s\<lparr>now := d - 1\<rparr>))"
          by (simp only: advance_Suc)
        with n Some far False show ?thesis by simp
      qed
    qed
  qed
qed

lemmas run_defs = run_def step_def advance_eval timer_defs

subsection \<open>A tick runs every timer that is due\<close>

text \<open>A timer callback starts timers with a positive delay only and removes its own
  timer or restarts it later, so three rounds, one for each kind of timer, leave no timer
  that is due.\<close>

lemma due_kinds_of:
  "due_kinds s =
     due_of (now s) (timeout s) (timerId (debouncedKeyInput s)) (timerId (throttledKeyDown s))"
  by (cases "timeout s"; cases "timerId (debouncedKeyInput s)";
      cases "timerId (throttledKeyDown s)")
     (auto simp: due_kinds_def pending_def due_of_def)

lemma fold_pick: "fold (\<lambda>a b. if P a b then a else b) ts t \<in> set (t # ts)"
  by (induction ts arbitrary: t) auto

lemma next_due_Some: "next_due s = Some k \<Longrightarrow> k \<in> due_kinds s"
proof -
  assume a: "next_due s = Some k"
  then obtain t ts where f: "filter (\<lambda>t. fst (snd t) \<le> now s) (pending s) = t # ts"
    and k: "k = fst (fold (\<lambda>a b. if runs_before a b then a else b) ts t)"
    by (auto simp: next_due_def split: list.splits)
  from fold_pick[of runs_before ts t] show ?thesis
    unfolding k due_kinds_def f by (intro imageI)
qed

lemma next_due_None: "next_due s = None \<longleftrightarrow> due_kinds s = {}"
proof -
  have "next_due s = None \<longleftrightarrow> filter (\<lambda>t. fst (snd t) \<le> now s) (pending s) = []"
    by (simp add: next_due_def split: list.splits)
  moreover have "due_kinds s = {} \<longleftrightarrow> filter (\<lambda>t. fst (snd t) \<le> now s) (pending s) = []"
    by (simp only: due_kinds_def image_is_empty set_empty)
  ultimately show ?thesis by simp
qed

lemma remainingWait_positive:
  assumes "\<not> shouldInvoke opts time d"
  shows "0 < remainingWait opts time d"
  using assms
  by (auto simp: shouldInvoke_def remainingWait_def Let_def split: option.splits)

lemma timerExpired_later:
  assumes "timerId (fst (timerExpired opts time q d)) = Some t"
  shows "time < deadline t"
  using assms remainingWait_positive[of opts time d]
  by (auto simp: timerExpired_def trailingEdge_def invokeFunc_def Let_def split: if_splits)


lemma debounced_later:
  assumes "timerId (fst (debounced opts time q args d)) = Some t" "0 < wait opts"
  shows "time < deadline t \<or> timerId d = Some t"
  using assms
  by (auto simp: debounced_def leadingEdge_def invokeFunc_def Let_def split: if_splits)

lemma now_handleTogglePopover [simp]: "now (handleTogglePopover b d s) = now s"
  by (simp add: handleTogglePopover_def setTimeout_popover_def clearTimeout_popover_def)

lemma now_handleDebouncedKeyInput_func [simp]: "now (handleDebouncedKeyInput_func s) = now s"
  by (simp add: handleDebouncedKeyInput_func_def Let_def call_onStop_def)

lemma due_handleTogglePopover:
  assumes "0 < d"
  shows "due_kinds (handleTogglePopover b d s) = due_kinds s - {PopoverTimer}"
  using assms
  by (auto simp: due_kinds_of due_of_def handleTogglePopover_def setTimeout_popover_def
      clearTimeout_popover_def)

lemma due_call_onStop [simp]: "due_kinds (call_onStop v s) = due_kinds s"
  by (simp add: due_kinds_of call_onStop_def)

lemma due_call_onSlide [simp]: "due_kinds (call_onSlide v s) = due_kinds s"
  by (simp add: due_kinds_of call_onSlide_def)

lemma due_state [simp]: "due_kinds (s\<lparr>state := st\<rparr>) = due_kinds s"
  by (simp add: due_kinds_of)

lemma due_handleDebouncedKeyInput_func:
  "due_kinds (handleDebouncedKeyInput_func s) = due_kinds s - {PopoverTimer}"
  by (simp add: handleDebouncedKeyInput_func_def Let_def due_handleTogglePopover)

lemma due_fire_popover:
  "due_kinds (fire PopoverTimer s) \<subseteq> due_kinds s - {PopoverTimer}"
  by (auto simp: fire_def setState_def due_kinds_of due_of_def split: option.splits)

lemma due_fire_debounce:
  "due_kinds (fire DebounceTimer s) \<subseteq> due_kinds s - {DebounceTimer}"
proof -
  obtain d invoke where e: "timerExpired (debounce_options 250) (now s) (timer_seq s)
      (debouncedKeyInput s) = (d, invoke)"
    by (cases "timerExpired (debounce_options 250) (now s) (timer_seq s) (debouncedKeyInput s)")
  define s1 where "s1 = s\<lparr>debouncedKeyInput := d, timer_seq := Suc (timer_seq s)\<rparr>"
  have later: "\<And>t. timerId d = Some t \<Longrightarrow> now s < deadline t"
    using timerExpired_later[of "debounce_options 250" "now s" "timer_seq s" "debouncedKeyInput s"]
    by (simp add: e)
  have 1: "due_kinds s1 \<subseteq> due_kinds s - {DebounceTimer}"
    using later by (auto simp: s1_def due_kinds_of due_of_def)
  have "fire DebounceTimer s = (case invoke of None \<Rightarrow> s1 | Some _ \<Rightarrow> handleDebouncedKeyInput_func s1)"
    by (cases invoke) (simp_all add: fire_def e s1_def Let_def)
  then show ?thesis using 1
    by (cases invoke) (auto simp: due_handleDebouncedKeyInput_func)
qed


lemma due_handleDebouncedKeyInput: "due_kinds (handleDebouncedKeyInput s) \<subseteq> due_kinds s"
proof -
  obtain d invoke where e: "debounced (debounce_options 250) (now s) (timer_seq s) ()
      (debouncedKeyInput s) = (d, invoke)"
    by (cases "debounced (debounce_options 250) (now s) (timer_seq s) () (debouncedKeyInput s)")
  define s1 where "s1 = s\<lparr>debouncedKeyInput := d, timer_seq := Suc (timer_seq s)\<rparr>"
  have later: "now s < deadline t \<or> timerId (debouncedKeyInput s) = Some t"
    if "timerId d = Some t" for t
    using debounced_later[of "debounce_options 250" "now s" "timer_seq s" "()"
        "debouncedKeyInput s" t, unfolded e] that
    by (simp add: debounce_options_def)
  have 1: "due_kinds s1 \<subseteq> due_kinds s"
    using later by (auto simp: s1_def due_kinds_of due_of_def)
  have "handleDebouncedKeyInput s
          = (case invoke of None \<Rightarrow> s1 | Some _ \<Rightarrow> handleDebouncedKeyInput_func s1)"
    by (cases invoke) (simp_all add: handleDebouncedKeyInput_def e s1_def Let_def)
  then show ?thesis using 1
    by (cases invoke) (auto simp: due_handleDebouncedKeyInput_func)
qed

lemma due_setState_then:
  assumes "\<And>s'. due_kinds (cb s') \<subseteq> due_kinds s'"
  shows "due_kinds (setState_then upd cb s) \<subseteq> due_kinds s"
proof (cases "mounted s")
  case True
  have "due_kinds (cb (s\<lparr>state := upd (state s)\<rparr>)) \<subseteq> due_kinds (s\<lparr>state := upd (state s)\<rparr>)"
    by (rule assms)
  then show ?thesis using True by (simp add: setState_then_def)
next
  case False
  then show ?thesis by (simp add: setState_then_def)
qed

lemma handleThrottledKeyDown_func_eq:
  "handleThrottledKeyDown_func key s =
     (if disabled (props s) then
        setState_then (\<lambda>st. st\<lparr>isHovered := True\<rparr>) (handleTogglePopover False 400) s
      else if arrow key then
        setState_then
          (\<lambda>st. st\<lparr>state_value := key_value (props s) key (state_value (state s)),
                   isHovered := True\<rparr>)
          (\<lambda>this'. call_onSlide (key_value (props s) key (state_value (state s)))
                     (handleDebouncedKeyInput this')) s
      else s)"
  by (simp add: handleThrottledKeyDown_func_def key_value_def arrow_def Let_def)

lemma due_handleThrottledKeyDown_func:
  "due_kinds (handleThrottledKeyDown_func key s) \<subseteq> due_kinds s"
proof -
  have a: "\<And>s'. due_kinds (handleTogglePopover False 400 s') \<subseteq> due_kinds s'"
    by (simp add: due_handleTogglePopover)
  have b: "\<And>v s'. due_kinds (call_onSlide v (handleDebouncedKeyInput s')) \<subseteq> due_kinds s'"
    by (simp add: due_handleDebouncedKeyInput)
  show ?thesis
  proof (cases "disabled (props s)")
    case True
    then have "handleThrottledKeyDown_func key s =
        setState_then (\<lambda>st. st\<lparr>isHovered := True\<rparr>) (handleTogglePopover False 400) s"
      by (simp add: handleThrottledKeyDown_func_eq)
    then show ?thesis by (simp only:) (rule due_setState_then, rule a)
  next
    case enabled: False
    show ?thesis
    proof (cases "arrow key")
      case True
      with enabled have "handleThrottledKeyDown_func key s =
        setState_then
          (\<lambda>st. st\<lparr>state_value := key_value (props s) key (state_value (state s)),
                   isHovered := True\<rparr>)
          (\<lambda>this'. call_onSlide (key_value (props s) key (state_value (state s)))
                     (handleDebouncedKeyInput this')) s"
        by (simp add: handleThrottledKeyDown_func_eq)
      then show ?thesis by (simp only:) (rule due_setState_then, rule b)
    next
      case False
      with enabled show ?thesis by (simp add: handleThrottledKeyDown_func_eq)
    qed
  qed
qed

lemma due_fire_throttle:
  "due_kinds (fire ThrottleTimer s) \<subseteq> due_kinds s - {ThrottleTimer}"
proof -
  obtain d invoke where e: "timerExpired (throttle_options 50) (now s) (timer_seq s)
      (throttledKeyDown s) = (d, invoke)"
    by (cases "timerExpired (throttle_options 50) (now s) (timer_seq s) (throttledKeyDown s)")
  define s1 where "s1 = s\<lparr>throttledKeyDown := d, timer_seq := Suc (timer_seq s)\<rparr>"
  have later: "now s < deadline t" if "timerId d = Some t" for t
    using timerExpired_later[of "throttle_options 50" "now s" "timer_seq s" "throttledKeyDown s" t,
        unfolded e] that
    by simp
  have 1: "due_kinds s1 \<subseteq> due_kinds s - {ThrottleTimer}"
    using later by (auto simp: s1_def due_kinds_of due_of_def)
  have "fire ThrottleTimer s
          = (case invoke of None \<Rightarrow> s1 | Some k \<Rightarrow> handleThrottledKeyDown_func k s1)"
    by (cases invoke) (simp_all add: fire_def e s1_def Let_def)
  then show ?thesis using 1 due_handleThrottledKeyDown_func[of _ s1]
    by (cases invoke) auto
qed

lemma due_fire: "due_kinds (fire k s) \<subseteq> due_kinds s - {k}"
  by (cases k) (simp_all add: due_fire_popover due_fire_debounce due_fire_throttle del: subset_iff)

lemma due_run_next:
  "due_kinds (run_next s) \<subseteq> due_kinds s \<and>
   (due_kinds s \<noteq> {} \<longrightarrow> due_kinds (run_next s) \<noteq> due_kinds s)"
proof (cases "next_due s")
  case None
  then have "run_next s = s" by (simp add: run_next_def)
  moreover from None have "due_kinds s = {}" by (simp add: next_due_None)
  ultimately show ?thesis by simp
next
  case (Some k)
  then have "run_next s = fire k s" by (simp add: run_next_def)
  with next_due_Some[OF Some] due_fire[of k s] show ?thesis by auto
qed

lemma finite_due_kinds: "finite (due_kinds s)"
  by (simp add: due_kinds_def)

lemma card_due_kinds: "card (due_kinds s) \<le> 3"
proof -
  have "due_kinds s \<subseteq> {PopoverTimer, DebounceTimer, ThrottleTimer}"
    using timer_kind.exhaust by auto
  from card_mono[OF _ this] show ?thesis by simp
qed

lemma card_run_next: "card (due_kinds (run_next s)) \<le> card (due_kinds s) - 1"
proof (cases "due_kinds s = {}")
  case True
  with due_run_next[of s] show ?thesis by simp
next
  case False
  with due_run_next[of s] have "due_kinds (run_next s) \<subset> due_kinds s" by blast
  from psubset_card_mono[OF finite_due_kinds this] show ?thesis by simp
qed

lemma tick_runs_all_due: "next_due (tick s) = None"
proof -
  define s0 where "s0 = s\<lparr>now := now s + 1\<rparr>"
  have "card (due_kinds (run_next (run_next (run_next s0)))) \<le> card (due_kinds s0) - 3"
    using card_run_next[of s0] card_run_next[of "run_next s0"]
      card_run_next[of "run_next (run_next s0)"]
    by simp
  then have "card (due_kinds (tick s)) = 0"
    using card_due_kinds[of s0] by (simp add: tick_def s0_def)
  then show ?thesis by (simp add: next_due_None finite_due_kinds)
qed

subsection \<open>Teardown\<close>

text \<open>
  Claim C9 asks that unmounting cancels every pending timer, so that no callback is
  invoked afterwards. Evaluated on a fresh slider: \<open>ArrowRight\<close> is pressed, 10 ms later the
  slider is unmounted. \<open>componentWillUnmount\<close> clears \<open>_timeout\<close> only; the timers of
  the debounced and of the throttled method stay pending, and 240 ms later \<open>onStop(6)\<close>
  is invoked on the unmounted component.
\<close>

theorem onStop_after_unmount:
  "calls (run [KeyDown ''ArrowRight'', Wait 10, Unmount] (mount track_rect bounded_props))
     = [OnSlide (Num 6)] \<and>
   map fst (pending (run [KeyDown ''ArrowRight'', Wait 10, Unmount] (mount track_rect bounded_props)))
     = [DebounceTimer, ThrottleTimer] \<and>
   \<not> mounted (run [KeyDown ''ArrowRight'', Wait 10, Unmount, Wait 240]
                 (mount track_rect bounded_props)) \<and>
   calls (run [KeyDown ''ArrowRight'', Wait 10, Unmount, Wait 240] (mount track_rect bounded_props))
     = [OnSlide (Num 6), OnStop (Num 6)]"
  by (simp add: run_defs example_defs handler_defs effect_defs lodash_defs Let_def js_defs)

subsection \<open>Arrow keys\<close>

lemma state_handleTogglePopover [simp]: "state (handleTogglePopover b d s) = state s"
  by (simp add: handleTogglePopover_def setTimeout_popover_def clearTimeout_popover_def)

lemma state_call_onStop [simp]: "state (call_onStop v s) = state s"
  by (simp add: call_onStop_def)

lemma state_call_onSlide [simp]: "state (call_onSlide v s) = state s"
  by (simp add: call_onSlide_def)

lemma state_handleDebouncedKeyInput_func [simp]: "state (handleDebouncedKeyInput_func s) = state s"
  by (simp add: handleDebouncedKeyInput_func_def Let_def)

lemma state_handleDebouncedKeyInput [simp]: "state (handleDebouncedKeyInput s) = state s"
  by (simp add: handleDebouncedKeyInput_def Let_def split: prod.splits option.splits)






lemma throttle_invokes_with_key:
  "snd (debounced (throttle_options 50) t q key d) =
     (if shouldInvoke (throttle_options 50) t d then Some key else None)"
  by (simp add: debounced_def leadingEdge_def invokeFunc_def throttle_options_def Let_def)

lemma handleThrottledKeyDown_cases:
  "handleThrottledKeyDown key this =
     (let this1 = this\<lparr>throttledKeyDown :=
                         fst (debounced (throttle_options 50) (now this) (timer_seq this) key
                                (throttledKeyDown this)),
                       timer_seq := Suc (timer_seq this)\<rparr>
      in if shouldInvoke (throttle_options 50) (now this) (throttledKeyDown this)
         then handleThrottledKeyDown_func key this1 else this1)"
proof -
  obtain d invoke
    where e: "debounced (throttle_options 50) (now this) (timer_seq this) key
                (throttledKeyDown this) = (d, invoke)"
    by (cases "debounced (throttle_options 50) (now this) (timer_seq this) key
                 (throttledKeyDown this)")
  from throttle_invokes_with_key[of "now this" "timer_seq this" key "throttledKeyDown this"]
  have "invoke = (if shouldInvoke (throttle_options 50) (now this) (throttledKeyDown this)
                  then Some key else None)"
    by (simp add: e)
  then show ?thesis by (simp add: handleThrottledKeyDown_def e Let_def)
qed



subsection \<open>Drag sessions\<close>





lemma run_next_keyboard_idle:
  assumes "keyboard_idle s"
  shows "run_next s = s \<or>
         (\<exists>b. run_next s = (setState (\<lambda>st. st\<lparr>isHovered := b\<rparr>) s)\<lparr>timeout := None\<rparr>)"
  using assms
  by (auto simp add: keyboard_idle_def run_next_def next_due_def pending_def fire_def
      split: option.splits list.splits)







lemma run_append: "run (es @ es') s = run es' (run es s)"
  by (simp add: run_def)










subsection \<open>The sliding flag\<close>

text \<open>
  Claim C8, as stated, fails where it includes an end event that arrives while
  \<open>disabled\<close> is true: \<open>handleMouseUp\<close> and \<open>handleTouchEnd\<close> return at once when the
  slider is disabled, as every handler does. A drag starts, the parent disables the
  slider, the button is released: the listener is registered, the event is delivered,
  and \<open>isSliding\<close> is still true.
\<close>

theorem end_event_while_disabled:
  "Mouseup \<in> set (listeners (run (butlast disabled_mid_drag) (mount track_rect bounded_props))) \<and>
   isSliding (state (run disabled_mid_drag (mount track_rect bounded_props)))"
  by (simp add: disabled_mid_drag_def run_defs example_defs handler_defs effect_defs
      calculateValue_def Let_def js_defs)

lemma listeners_handleTogglePopover [simp]: "listeners (handleTogglePopover b d s) = listeners s"
  by (simp add: handleTogglePopover_def setTimeout_popover_def clearTimeout_popover_def)

lemma listeners_setState [simp]: "listeners (setState upd s) = listeners s"
  by (simp add: setState_def)

lemma listeners_call_onSlide [simp]: "listeners (call_onSlide v s) = listeners s"
  by (simp add: call_onSlide_def)

lemma listeners_call_onStop [simp]: "listeners (call_onStop v s) = listeners s"
  by (simp add: call_onStop_def)

lemma listeners_handleDebouncedKeyInput_func [simp]:
  "listeners (handleDebouncedKeyInput_func s) = listeners s"
  by (simp add: handleDebouncedKeyInput_func_def Let_def)

lemma listeners_handleDebouncedKeyInput [simp]:
  "listeners (handleDebouncedKeyInput s) = listeners s"
  by (simp add: handleDebouncedKeyInput_def Let_def split: prod.splits option.splits)

lemma listeners_handleThrottledKeyDown_func [simp]:
  "listeners (handleThrottledKeyDown_func key s) = listeners s"
  by (simp add: handleThrottledKeyDown_func_def Let_def setState_then_def)

lemma isSliding_handleThrottledKeyDown_func [simp]:
  "isSliding (state (handleThrottledKeyDown_func key s)) = isSliding (state s)"
  by (simp add: handleThrottledKeyDown_func_def Let_def setState_then_def)

lemma listeners_fire [simp]: "listeners (fire k s) = listeners s"
  by (cases k) (simp_all add: fire_def Let_def split: prod.splits option.splits)

lemma isSliding_fire [simp]: "isSliding (state (fire k s)) = isSliding (state s)"
  by (cases k) (simp_all add: fire_def setState_def Let_def split: prod.splits option.splits)

lemma listeners_tick [simp]: "listeners (tick s) = listeners s"
  by (simp add: tick_def run_next_def split: option.splits)

lemma isSliding_tick [simp]: "isSliding (state (tick s)) = isSliding (state s)"
  by (simp add: tick_def run_next_def split: option.splits)

lemma listeners_advance [simp]: "listeners (advance n s) = listeners s"
  by (induction n arbitrary: s) (simp_all add: advance_Suc)

lemma isSliding_advance [simp]: "isSliding (state (advance n s)) = isSliding (state s)"
  by (induction n arbitrary: s) (simp_all add: advance_Suc)

lemma isSliding_handleKeyDown [simp]:
  "isSliding (state (handleKeyDown key s)) = isSliding (state s)"
  by (simp add: handleKeyDown_def handleThrottledKeyDown_cases Let_def)

lemma listeners_handleKeyDown [simp]: "listeners (handleKeyDown key s) = listeners s"
  by (simp add: handleKeyDown_def handleThrottledKeyDown_cases Let_def)

lemma sliding_starts:
  assumes "isSliding (state (step e s))" "\<not> isSliding (state s)"
  shows "is_start e"
  using assms
  by (cases e)
     (auto simp add: step_def handleMouseDown_def handleMouseMove_def handleMouseUp_def
        handleTouchMove_def handleTouchEnd_def handleMouseEnter_def handleMouseLeave_def
        componentWillReceiveProps_def componentWillUnmount_def clearTimeout_popover_def
        setState_def call_onSlide_def call_onStop_def removeEventListener_def Let_def
        split: if_splits)

lemma distinct_addEventListener:
  "distinct (listeners s) \<Longrightarrow> distinct (listeners (addEventListener l s))"
  by (simp add: addEventListener_def)

lemma distinct_removeEventListener:
  "distinct (listeners s) \<Longrightarrow> distinct (listeners (removeEventListener l s))"
  by (simp add: removeEventListener_def distinct_removeAll)

lemma listeners_handleMouseMove [simp]: "listeners (handleMouseMove ev s) = listeners s"
  by (simp add: handleMouseMove_def Let_def)

lemma listeners_handleTouchMove [simp]: "listeners (handleTouchMove x s) = listeners s"
  by (simp add: handleTouchMove_def Let_def)

lemma distinct_step:
  assumes "distinct (listeners s)"
  shows "distinct (listeners (step e s))"
  using assms
  by (cases e)
     (simp_all add: step_def handleMouseDown_def handleMouseUp_def handleTouchStart_def
        handleTouchEnd_def handleMouseEnter_def handleMouseLeave_def
        componentWillReceiveProps_def componentWillUnmount_def clearTimeout_popover_def
        distinct_addEventListener distinct_removeEventListener Let_def)

lemma distinct_run:
  "distinct (listeners s) \<Longrightarrow> distinct (listeners (run es s))"
  by (induction es arbitrary: s) (simp_all add: run_def distinct_step)

lemma sliding_inv_extend:
  assumes "sliding_inv es s" "mounted s'" "\<not> disabled (props s')"
    "isSliding (state s') \<longrightarrow> isSliding (state s)" "set (listeners s) \<subseteq> set (listeners s')"
    "\<And>e. \<not> matching_end e e'"
  shows "sliding_inv (es @ [e']) s'"
proof -
  have "\<exists>es1 e es2. es @ [e'] = es1 @ e # es2 \<and> is_start e \<and>
          (\<forall>x\<in>set es2. \<not> matching_end e x) \<and>
          ((\<exists>ev. e = MouseDown ev) \<longrightarrow> Mouseup \<in> set (listeners s')) \<and>
          ((\<exists>x. e = TouchStart x) \<longrightarrow> Touchend \<in> set (listeners s'))"
    if "isSliding (state s')"
  proof -
    from that assms(4) have "isSliding (state s)" by simp
    with assms(1) obtain es1 e es2 where d: "es = es1 @ e # es2" "is_start e"
        "\<forall>x\<in>set es2. \<not> matching_end e x"
        "(\<exists>ev. e = MouseDown ev) \<longrightarrow> Mouseup \<in> set (listeners s)"
        "(\<exists>x. e = TouchStart x) \<longrightarrow> Touchend \<in> set (listeners s)"
      unfolding sliding_inv_def by blast
    have "es @ [e'] = es1 @ e # (es2 @ [e'])" using d(1) by simp
    moreover have "\<forall>x\<in>set (es2 @ [e']). \<not> matching_end e x" using d(3) assms(6) by simp
    ultimately show ?thesis using d(2,4,5) assms(5) by blast
  qed
  then show ?thesis using assms(2,3) unfolding sliding_inv_def by blast
qed

lemma sliding_inv_start:
  assumes "mounted s'" "\<not> disabled (props s')" "is_start e'"
    "(\<exists>ev. e' = MouseDown ev) \<longrightarrow> Mouseup \<in> set (listeners s')"
    "(\<exists>x. e' = TouchStart x) \<longrightarrow> Touchend \<in> set (listeners s')"
  shows "sliding_inv (es @ [e']) s'"
proof -
  have "es @ [e'] = es @ e' # []" by simp
  then have "\<exists>es1 e es2. es @ [e'] = es1 @ e # es2 \<and> is_start e \<and>
          (\<forall>x\<in>set es2. \<not> matching_end e x) \<and>
          ((\<exists>ev. e = MouseDown ev) \<longrightarrow> Mouseup \<in> set (listeners s')) \<and>
          ((\<exists>x. e = TouchStart x) \<longrightarrow> Touchend \<in> set (listeners s'))"
    using assms(3,4,5) by (metis empty_iff list.set(1))
  then show ?thesis using assms(1,2) unfolding sliding_inv_def by blast
qed

lemma sliding_inv_stopped:
  assumes "mounted s'" "\<not> disabled (props s')" "\<not> isSliding (state s')"
  shows "sliding_inv es s'"
  using assms unfolding sliding_inv_def by simp


lemma props_handleTogglePopover [simp]: "props (handleTogglePopover b d s) = props s"
  by (simp add: handleTogglePopover_def setTimeout_popover_def clearTimeout_popover_def)

lemma props_setState [simp]: "props (setState upd s) = props s"
  by (simp add: setState_def)

lemma props_call_onSlide [simp]: "props (call_onSlide v s) = props s"
  by (simp add: call_onSlide_def)

lemma props_call_onStop [simp]: "props (call_onStop v s) = props s"
  by (simp add: call_onStop_def)

lemma props_addEventListener [simp]: "props (addEventListener l s) = props s"
  by (simp add: addEventListener_def)

lemma props_removeEventListener [simp]: "props (removeEventListener l s) = props s"
  by (simp add: removeEventListener_def)

lemma props_handleDebouncedKeyInput_func [simp]:
  "props (handleDebouncedKeyInput_func s) = props s"
  by (simp add: handleDebouncedKeyInput_func_def Let_def)

lemma props_handleDebouncedKeyInput [simp]: "props (handleDebouncedKeyInput s) = props s"
  by (simp add: handleDebouncedKeyInput_def Let_def split: prod.splits option.splits)

lemma props_handleThrottledKeyDown_func [simp]:
  "props (handleThrottledKeyDown_func key s) = props s"
  by (simp add: handleThrottledKeyDown_func_def Let_def setState_then_def)

lemma props_handleKeyDown [simp]: "props (handleKeyDown key s) = props s"
  by (simp add: handleKeyDown_def handleThrottledKeyDown_cases Let_def)

lemma props_handleMouseMove [simp]: "props (handleMouseMove ev s) = props s"
  by (simp add: handleMouseMove_def Let_def)

lemma props_handleTouchMove [simp]: "props (handleTouchMove x s) = props s"
  by (simp add: handleTouchMove_def Let_def)

lemma props_handleMouseDown [simp]: "props (handleMouseDown ev s) = props s"
  by (simp add: handleMouseDown_def)

lemma props_handleTouchStart [simp]: "props (handleTouchStart x s) = props s"
  by (simp add: handleTouchStart_def)

lemma props_handleMouseUp [simp]: "props (handleMouseUp s) = props s"
  by (simp add: handleMouseUp_def Let_def)

lemma props_handleTouchEnd [simp]: "props (handleTouchEnd s) = props s"
  by (simp add: handleTouchEnd_def Let_def)

lemma props_fire [simp]: "props (fire k s) = props s"
  by (cases k) (simp_all add: fire_def Let_def split: prod.splits option.splits)

lemma props_tick [simp]: "props (tick s) = props s"
  by (simp add: tick_def run_next_def split: option.splits)

lemma props_advance [simp]: "props (advance n s) = props s"
  by (induction n arbitrary: s) (simp_all add: advance_Suc)

lemma slider_current_handleTogglePopover [simp]: "slider_current (handleTogglePopover b d s) = slider_current s"
  by (simp add: handleTogglePopover_def setTimeout_popover_def clearTimeout_popover_def)

lemma slider_current_setState [simp]: "slider_current (setState upd s) = slider_current s"
  by (simp add: setState_def)

lemma slider_current_call_onSlide [simp]: "slider_current (call_onSlide v s) = slider_current s"
  by (simp add: call_onSlide_def)

lemma slider_current_call_onStop [simp]: "slider_current (call_onStop v s) = slider_current s"
  by (simp add: call_onStop_def)

lemma slider_current_addEventListener [simp]: "slider_current (addEventListener l s) = slider_current s"
  by (simp add: addEventListener_def)

lemma slider_current_removeEventListener [simp]: "slider_current (removeEventListener l s) = slider_current s"
  by (simp add: removeEventListener_def)

lemma slider_current_handleDebouncedKeyInput_func [simp]:
  "slider_current (handleDebouncedKeyInput_func s) = slider_current s"
  by (simp add: handleDebouncedKeyInput_func_def Let_def)

lemma slider_current_handleDebouncedKeyInput [simp]: "slider_current (handleDebouncedKeyInput s) = slider_current s"
  by (simp add: handleDebouncedKeyInput_def Let_def split: prod.splits option.splits)

lemma slider_current_handleThrottledKeyDown_func [simp]:
  "slider_current (handleThrottledKeyDown_func key s) = slider_current s"
  by (simp add: handleThrottledKeyDown_func_def Let_def setState_then_def)

lemma slider_current_handleKeyDown [simp]: "slider_current (handleKeyDown key s) = slider_current s"
  by (simp add: handleKeyDown_def handleThrottledKeyDown_cases Let_def)

lemma slider_current_handleMouseMove [simp]: "slider_current (handleMouseMove ev s) = slider_current s"
  by (simp add: handleMouseMove_def Let_def)

lemma slider_current_handleTouchMove [simp]: "slider_current (handleTouchMove x s) = slider_current s"
  by (simp add: handleTouchMove_def Let_def)

lemma slider_current_handleMouseDown [simp]: "slider_current (handleMouseDown ev s) = slider_current s"
  by (simp add: handleMouseDown_def)

lemma slider_current_handleTouchStart [simp]: "slider_current (handleTouchStart x s) = slider_current s"
  by (simp add: handleTouchStart_def)

lemma slider_current_handleMouseUp [simp]: "slider_current (handleMouseUp s) = slider_current s"
  by (simp add: handleMouseUp_def Let_def)

lemma slider_current_handleTouchEnd [simp]: "slider_current (handleTouchEnd s) = slider_current s"
  by (simp add: handleTouchEnd_def Let_def)

lemma slider_current_fire [simp]: "slider_current (fire k s) = slider_current s"
  by (cases k) (simp_all add: fire_def Let_def split: prod.splits option.splits)

lemma slider_current_tick [simp]: "slider_current (tick s) = slider_current s"
  by (simp add: tick_def run_next_def split: option.splits)

lemma slider_current_advance [simp]: "slider_current (advance n s) = slider_current s"
  by (induction n arbitrary: s) (simp_all add: advance_Suc)

lemma isSliding_handleMouseMove [simp]:
  "isSliding (state (handleMouseMove ev s)) = isSliding (state s)"
  by (simp add: handleMouseMove_def Let_def setState_def)

lemma isSliding_handleTouchMove [simp]:
  "isSliding (state (handleTouchMove x s)) = isSliding (state s)"
  by (simp add: handleTouchMove_def Let_def setState_def)

lemma isSliding_handleTogglePopover [simp]:
  "isSliding (state (handleTogglePopover b d s)) = isSliding (state s)"
  by simp

lemma sliding_inv_step:
  assumes "sliding_inv es s" "keeps_enabled e'"
  shows "sliding_inv (es @ [e']) (step e' s)"
proof -
  from assms(1) have m: "mounted s" and en: "\<not> disabled (props s)"
    by (simp_all add: sliding_inv_def)
  have mounted_eq: "\<And>s'. slider_current s' = slider_current s \<Longrightarrow> mounted s'"
    using m by (simp add: mounted_def)
  show ?thesis
  proof (cases e')
    case (MouseDown ev)
    show ?thesis
    proof (cases "button ev = 0 \<and> \<not> isSliding (state s)")
      case True
      show ?thesis unfolding MouseDown
        by (rule sliding_inv_start)
           (use m en True in \<open>simp_all add: step_def mounted_eq handleMouseDown_def addEventListener_def\<close>)
    next
      case False
      then have "step e' s = s" using m by (auto simp: MouseDown step_def handleMouseDown_def)
      then show ?thesis
        using sliding_inv_extend[OF assms(1) m en, of e'] by (simp add: MouseDown)
    qed
  next
    case (MouseMove ev)
    show ?thesis unfolding MouseMove
      by (rule sliding_inv_extend[OF assms(1)]) (use m en in \<open>simp_all add: step_def mounted_eq\<close>)
  next
    case MouseUp
    show ?thesis
    proof (cases "Mouseup \<in> set (listeners s)")
      case True
      show ?thesis unfolding MouseUp
        by (rule sliding_inv_stopped)
           (use m en True in \<open>auto simp add: step_def mounted_eq handleMouseUp_def Let_def setState_def
              mounted_def call_onStop_def removeEventListener_def\<close>)
    next
      case False
      then have same: "step e' s = s" by (simp add: MouseUp step_def)
      have "\<exists>es1 e es2. es @ [e'] = es1 @ e # es2 \<and> is_start e \<and>
              (\<forall>x\<in>set es2. \<not> matching_end e x) \<and>
              ((\<exists>ev. e = MouseDown ev) \<longrightarrow> Mouseup \<in> set (listeners s)) \<and>
              ((\<exists>x. e = TouchStart x) \<longrightarrow> Touchend \<in> set (listeners s))"
        if "isSliding (state s)"
      proof -
        from that assms(1) obtain es1 e es2 where d: "es = es1 @ e # es2" "is_start e"
            "\<forall>x\<in>set es2. \<not> matching_end e x"
            "(\<exists>ev. e = MouseDown ev) \<longrightarrow> Mouseup \<in> set (listeners s)"
            "(\<exists>x. e = TouchStart x) \<longrightarrow> Touchend \<in> set (listeners s)"
          unfolding sliding_inv_def by blast
        from d(4) False have "\<not> matching_end e MouseUp" by (cases e) auto
        then have "\<forall>x\<in>set (es2 @ [e']). \<not> matching_end e x" using d(3) by (simp add: MouseUp)
        moreover have "es @ [e'] = es1 @ e # (es2 @ [e'])" using d(1) by simp
        ultimately show ?thesis using d(2,4,5) by blast
      qed
      then show ?thesis using m en unfolding same sliding_inv_def by blast
    qed
  next
    case (TouchStart x)
    show ?thesis unfolding TouchStart
      by (rule sliding_inv_start)
         (use m en in \<open>simp_all add: step_def mounted_eq handleTouchStart_def addEventListener_def\<close>)
  next
    case (TouchMove x)
    show ?thesis unfolding TouchMove
      by (rule sliding_inv_extend[OF assms(1)]) (use m en in \<open>simp_all add: step_def mounted_eq\<close>)
  next
    case TouchEnd
    show ?thesis
    proof (cases "Touchend \<in> set (listeners s)")
      case True
      show ?thesis unfolding TouchEnd
        by (rule sliding_inv_stopped)
           (use m en True in \<open>auto simp add: step_def mounted_eq handleTouchEnd_def Let_def setState_def
              mounted_def call_onStop_def removeEventListener_def\<close>)
    next
      case False
      then have same: "step e' s = s" by (simp add: TouchEnd step_def)
      have "\<exists>es1 e es2. es @ [e'] = es1 @ e # es2 \<and> is_start e \<and>
              (\<forall>x\<in>set es2. \<not> matching_end e x) \<and>
              ((\<exists>ev. e = MouseDown ev) \<longrightarrow> Mouseup \<in> set (listeners s)) \<and>
              ((\<exists>x. e = TouchStart x) \<longrightarrow> Touchend \<in> set (listeners s))"
        if "isSliding (state s)"
      proof -
        from that assms(1) obtain es1 e es2 where d: "es = es1 @ e # es2" "is_start e"
            "\<forall>x\<in>set es2. \<not> matching_end e x"
            "(\<exists>ev. e = MouseDown ev) \<longrightarrow> Mouseup \<in> set (listeners s)"
            "(\<exists>x. e = TouchStart x) \<longrightarrow> Touchend \<in> set (listeners s)"
          unfolding sliding_inv_def by blast
        from d(5) False have "\<not> matching_end e TouchEnd" by (cases e) auto
        then have "\<forall>x\<in>set (es2 @ [e']). \<not> matching_end e x" using d(3) by (simp add: TouchEnd)
        moreover have "es @ [e'] = es1 @ e # (es2 @ [e'])" using d(1) by simp
        ultimately show ?thesis using d(2,4,5) by blast
      qed
      then show ?thesis using m en unfolding same sliding_inv_def by blast
    qed
  next
    case (KeyDown key)
    show ?thesis unfolding KeyDown
      by (rule sliding_inv_extend[OF assms(1)]) (use m en in \<open>simp_all add: step_def mounted_eq\<close>)
  next
    case MouseEnter
    show ?thesis unfolding MouseEnter
      by (rule sliding_inv_extend[OF assms(1)])
         (use m en in \<open>simp_all add: step_def mounted_eq handleMouseEnter_def\<close>)
  next
    case MouseLeave
    show ?thesis unfolding MouseLeave
      by (rule sliding_inv_extend[OF assms(1)])
         (use m en in \<open>simp_all add: step_def mounted_eq handleMouseLeave_def\<close>)
  next
    case (ReceiveProps q)
    show ?thesis unfolding ReceiveProps
      by (rule sliding_inv_extend[OF assms(1)])
         (use m en assms(2) in \<open>simp_all add: ReceiveProps step_def mounted_def
            componentWillReceiveProps_def setState_def\<close>)
  next
    case (Layout r)
    show ?thesis unfolding Layout
      by (rule sliding_inv_extend[OF assms(1)]) (use m en in \<open>simp_all add: step_def mounted_def\<close>)
  next
    case Unmount
    then show ?thesis using assms(2) by simp
  next
    case (Wait n)
    show ?thesis unfolding Wait
      by (rule sliding_inv_extend[OF assms(1)]) (use m en in \<open>simp_all add: step_def mounted_eq\<close>)
  qed
qed

lemma run_snoc: "run (es @ [e]) s = step e (run es s)"
  by (simp add: run_def)

lemma sliding_inv_run:
  assumes "\<not> disabled p" "\<forall>e\<in>set es. keeps_enabled e"
  shows "sliding_inv es (run es (mount r p))"
  using assms(2)
proof (induction es rule: rev_induct)
  case Nil
  show ?case
    by (rule sliding_inv_stopped) (use assms(1) in \<open>simp_all add: run_def mount_def new_slider_def mounted_def\<close>)
next
  case (snoc e es)
  then show ?case by (simp add: run_snoc sliding_inv_step)
qed

text \<open>
  Claim C8, amended. From a fresh mount, over any events that leave the slider mounted
  and enabled: if \<open>isSliding\<close> is true, a start event has happened and its matching end
  event has not happened since. \<open>isSliding\<close> becomes true at a start event only; an end
  event handled while the slider is mounted and enabled resets it; an end event that
  arrives while the slider is disabled is ignored and leaves everything as it is. While
  \<open>isSliding\<close> is true a mouse-down starts no second drag, and in every reachable state
  each listener of a drag is registered on \<open>document\<close> at most once.
\<close>

theorem sliding_between_start_and_end:
  "(\<not> disabled p \<and> (\<forall>e\<in>set es. keeps_enabled e) \<and> isSliding (state (run es (mount r p))) \<longrightarrow>
      (\<exists>es1 e es2. es = es1 @ e # es2 \<and> is_start e \<and> (\<forall>e'\<in>set es2. \<not> matching_end e e'))) \<and>
   (isSliding (state (step e this)) \<and> \<not> isSliding (state this) \<longrightarrow> is_start e) \<and>
   (mounted this \<and> \<not> disabled (props this) \<longrightarrow>
      \<not> isSliding (state (handleMouseUp this)) \<and> \<not> isSliding (state (handleTouchEnd this))) \<and>
   (disabled (props this) \<longrightarrow> handleMouseUp this = this \<and> handleTouchEnd this = this) \<and>
   (isSliding (state this) \<longrightarrow> handleMouseDown ev this = this) \<and>
   distinct (listeners (run es (mount r p)))"
proof -
  have "distinct (listeners (run es (mount r p)))"
    by (rule distinct_run) (simp add: mount_def new_slider_def)
  moreover have "mounted this \<and> \<not> disabled (props this) \<longrightarrow>
      \<not> isSliding (state (handleMouseUp this)) \<and> \<not> isSliding (state (handleTouchEnd this))"
    by (simp add: handleMouseUp_def handleTouchEnd_def Let_def setState_def mounted_def
        call_onStop_def removeEventListener_def)
  moreover have "\<exists>es1 e es2. es = es1 @ e # es2 \<and> is_start e \<and> (\<forall>e'\<in>set es2. \<not> matching_end e e')"
    if "\<not> disabled p" "\<forall>e\<in>set es. keeps_enabled e" "isSliding (state (run es (mount r p)))"
    using sliding_inv_run[OF that(1,2), of r] that(3) unfolding sliding_inv_def by blast
  ultimately show ?thesis
    using sliding_starts[of e this]
    by (simp add: handleMouseUp_def handleTouchEnd_def handleMouseDown_def)
qed

theorem sliding_between_start_and_end_witness:
  "\<not> disabled bounded_props \<and>
   keeps_enabled (MouseDown (primary_at 33)) \<and>
   isSliding (state (run [MouseDown (primary_at 33)] (mount track_rect bounded_props))) \<and>
   \<not> isSliding (state (mount track_rect bounded_props)) \<and>
   is_start (MouseDown (primary_at 33)) \<and>
   mounted (mount track_rect bounded_props) \<and>
   \<not> isSliding (state (handleMouseUp (run [MouseDown (primary_at 33)]
                                       (mount track_rect bounded_props)))) \<and>
   disabled (props (mount track_rect (bounded_props\<lparr>disabled := True\<rparr>))) \<and>
   handleTouchEnd (mount track_rect (bounded_props\<lparr>disabled := True\<rparr>))
     = mount track_rect (bounded_props\<lparr>disabled := True\<rparr>) \<and>
   handleMouseDown (primary_at 60) (run [MouseDown (primary_at 33)] (mount track_rect bounded_props))
     = run [MouseDown (primary_at 33)] (mount track_rect bounded_props) \<and>
   distinct (listeners (run [MouseDown (primary_at 33)] (mount track_rect bounded_props)))"
  using sliding_between_start_and_end[of bounded_props "[MouseDown (primary_at 33)]" track_rect
      "MouseDown (primary_at 33)" "mount track_rect bounded_props" "primary_at 60"]
    sliding_between_start_and_end[of bounded_props "[MouseDown (primary_at 33)]" track_rect
      "MouseDown (primary_at 33)" "run [MouseDown (primary_at 33)] (mount track_rect bounded_props)"
      "primary_at 60"]
    sliding_between_start_and_end[of bounded_props "[MouseDown (primary_at 33)]" track_rect
      "MouseDown (primary_at 33)" "mount track_rect (bounded_props\<lparr>disabled := True\<rparr>)"
      "primary_at 60"]
  by (simp add: run_def step_def example_defs handler_defs effect_defs calculateValue_def
      Let_def js_defs)

subsection \<open>A burst of key presses\<close>

text \<open>
  Claim C6, as stated, fails: \<open>throttle\<close> is used with its default options, which run
  the function on the trailing edge as well, with the arguments of the last call. Of
  five presses of \<open>ArrowRight\<close> 10 ms apart the first is handled at once and the fifth
  after 50 ms: from the value 5, with nine as the last stop, the final value is 7, not
  \<open>min(5 + 1, 9) = 6\<close>.
\<close>

theorem burst_moves_two_stops:
  "state_value (state (run (five_presses @ [Wait 1000]) (mount track_rect unbounded_props)))
     = Num 7 \<and>
   calls (run (five_presses @ [Wait 1000]) (mount track_rect unbounded_props))
     = [OnSlide (Num 6), OnSlide (Num 7), OnStop (Num 7)]"
  by (simp add: five_presses_def run_defs example_defs handler_defs effect_defs lodash_defs
      Let_def js_defs)

lemma first_press:
  assumes "\<not> disabled p" "onSlide p"
  shows "handleKeyDown ''ArrowRight'' (mount r p)
           = in_burst p r (forward p (Num (props_value p))) None 0 0 2"
  using assms
  by (simp add: in_burst_def forward_def mount_def new_slider_def handler_defs effect_defs
      lodash_defs Let_def)

lemma burst_wait:
  assumes "t + int g < 50"
  shows "advance g (in_burst p r v a c t q) = in_burst p r v a c (t + int g) q"
proof -
  have "advance g (in_burst p r v a c t q)
          = (in_burst p r v a c t q)\<lparr>now := now (in_burst p r v a c t q) + int g\<rparr>"
    by (rule advance_idle) (use assms in \<open>simp add: in_burst_def pending_def\<close>)
  then show ?thesis by (simp add: in_burst_def)
qed

lemma burst_press:
  assumes "0 \<le> c" "c \<le> t" "t < 50"
  shows "handleKeyDown ''ArrowRight'' (in_burst p r v a c t q)
           = in_burst p r v (Some ''ArrowRight'') t t (Suc q)"
  using assms
  by (simp add: in_burst_def handleKeyDown_def handleThrottledKeyDown_def lodash_defs Let_def)


lemma burst_trailing_edge:
  assumes "0 \<le> c" "c \<le> t" "t < 50" "\<not> disabled p" "onSlide p"
  shows "advance (nat (50 - t)) (in_burst p r v (Some ''ArrowRight'') c t q)
           = after_burst p r v c (Suc (Suc q))"
proof -
  let ?s = "in_burst p r v (Some ''ArrowRight'') c t q"
  have e: "earliest_deadline ?s = Some 50"
    by (simp add: earliest_deadline_def pending_def in_burst_def)
  have n: "now ?s = t" by (simp add: in_burst_def)
  have "advance (nat (50 - t)) ?s = tick (?s\<lparr>now := 49\<rparr>)"
    by (subst advance_eval) (use assms(3) in \<open>simp add: e n\<close>)
  also have "\<dots> = after_burst p r v c (Suc (Suc q))"
    using assms
    by (simp add: in_burst_def after_burst_def forward_def timer_defs lodash_defs handler_defs
        effect_defs Let_def)
  finally show ?thesis .
qed

lemma after_burst_250:
  assumes "onStop p"
  shows "calls (advance 250 (after_burst p r v c q))
           = [OnSlide v, OnSlide (forward p v), OnStop (forward p v)] \<and>
         state_value (state (advance 250 (after_burst p r v c q))) = forward p v \<and>
         timerId (debouncedKeyInput (advance 250 (after_burst p r v c q))) = None \<and>
         timerId (throttledKeyDown (advance 250 (after_burst p r v c q))) = None"
  using assms
  by (simp add: after_burst_def advance_eval timer_defs lodash_defs handler_defs effect_defs Let_def)

lemma quiet_run_next: "quiet cs v s \<Longrightarrow> quiet cs v (run_next s)"
  using run_next_keyboard_idle[of s]
  by (auto simp: quiet_def keyboard_idle_def setState_def)

lemma quiet_tick: "quiet cs v s \<Longrightarrow> quiet cs v (tick s)"
proof -
  assume "quiet cs v s"
  then have "quiet cs v (s\<lparr>now := now s + 1\<rparr>)" by (simp add: quiet_def keyboard_idle_def)
  then show ?thesis unfolding tick_def by (intro quiet_run_next)
qed

lemma quiet_advance: "quiet cs v s \<Longrightarrow> quiet cs v (advance n s)"
  by (induction n arbitrary: s) (simp_all add: advance_Suc quiet_tick)

lemma forward_Num:
  assumes "v \<le> stopCount p - 1"
  shows "forward p (Num v) = Num (min (v + 1) (upper_stop p))"
  using assms by (cases "maxValue p") (auto simp: forward_def js_add_def upper_stop_def Let_def)

lemma upper_stop_le: "upper_stop p \<le> stopCount p - 1"
  by (auto simp: upper_stop_def split: option.splits)

lemma forward_forward_Num:
  assumes "v \<le> stopCount p - 1"
  shows "forward p (forward p (Num v)) = Num (min (v + 2) (upper_stop p))"
proof -
  have "min (v + 1) (upper_stop p) \<le> stopCount p - 1" using upper_stop_le[of p] by simp
  then have "forward p (Num (min (v + 1) (upper_stop p)))
               = Num (min (min (v + 1) (upper_stop p) + 1) (upper_stop p))"
    by (rule forward_Num)
  then show ?thesis using forward_Num[OF assms] by simp
qed

text \<open>
  Claim C6, amended: of five \<open>ArrowRight\<close> key-down events that all arrive less than
  50 ms after the first, on a fresh slider that is not disabled, the first is handled
  at once and the last when the 50 ms window ends; the three between are dropped. Once
  300 ms have passed since the first press, the value is
  \<open>min(initial + 2, maxValue if set else stopCount - 1)\<close> and exactly one \<open>onStop\<close> call
  has been made, with that value.
\<close>

theorem burst_of_five_presses:
  assumes "\<not> disabled p" and "onSlide p" and "onStop p"
    and "props_value p \<le> stopCount p - 1"
    and "g1 + g2 + g3 + g4 < 50" and "300 \<le> g1 + g2 + g3 + g4 + w"
  shows "state_value (state (run [KeyDown ''ArrowRight'', Wait g1, KeyDown ''ArrowRight'', Wait g2,
            KeyDown ''ArrowRight'', Wait g3, KeyDown ''ArrowRight'', Wait g4,
            KeyDown ''ArrowRight'', Wait w] (mount r p)))
           = Num (min (props_value p + 2) (upper_stop p)) \<and>
         calls (run [KeyDown ''ArrowRight'', Wait g1, KeyDown ''ArrowRight'', Wait g2,
            KeyDown ''ArrowRight'', Wait g3, KeyDown ''ArrowRight'', Wait g4,
            KeyDown ''ArrowRight'', Wait w] (mount r p))
           = [OnSlide (Num (min (props_value p + 1) (upper_stop p))),
              OnSlide (Num (min (props_value p + 2) (upper_stop p))),
              OnStop (Num (min (props_value p + 2) (upper_stop p)))]"
proof -
  define v1 where "v1 = forward p (Num (props_value p))"
  define G where "G = int g1 + int g2 + int g3 + int g4"
  have G: "0 \<le> G" "G < 50" using assms(5) by (simp_all add: G_def)
  define w' where "w' = w - (nat (50 - G) + 250)"
  have w: "w = nat (50 - G) + 250 + w'" using assms(6) G by (simp add: w'_def G_def)
  have m: "mounted (mount r p)" by (simp add: mount_def new_slider_def mounted_def)
  have mb: "\<And>a c t q. mounted (in_burst p r v1 a c t q)" by (simp add: in_burst_def mounted_def)
  have s1: "step (KeyDown ''ArrowRight'') (mount r p) = in_burst p r v1 None 0 0 2"
    using first_press[OF assms(1,2), of r] m by (simp add: step_def v1_def)
  have s2: "step (Wait g1) (in_burst p r v1 None 0 0 2) = in_burst p r v1 None 0 (int g1) 2"
    using burst_wait[of 0 g1 p r v1 None 0 2] assms(5) by (simp add: step_def)
  have s3: "step (KeyDown ''ArrowRight'') (in_burst p r v1 None 0 (int g1) 2)
              = in_burst p r v1 (Some ''ArrowRight'') (int g1) (int g1) 3"
    using burst_press[of 0 "int g1" p r v1 None 2] assms(5) mb
    by (simp add: step_def eval_nat_numeral)
  have s4: "step (Wait g2) (in_burst p r v1 (Some ''ArrowRight'') (int g1) (int g1) 3)
              = in_burst p r v1 (Some ''ArrowRight'') (int g1) (int g1 + int g2) 3"
    using burst_wait[of "int g1" g2 p r v1 "Some ''ArrowRight''" "int g1" 3] assms(5)
    by (simp add: step_def)
  have s5: "step (KeyDown ''ArrowRight'')
              (in_burst p r v1 (Some ''ArrowRight'') (int g1) (int g1 + int g2) 3)
              = in_burst p r v1 (Some ''ArrowRight'') (int g1 + int g2) (int g1 + int g2) 4"
    using burst_press[of "int g1" "int g1 + int g2" p r v1 "Some ''ArrowRight''" 3] assms(5) mb
    by (simp add: step_def eval_nat_numeral)
  have s6: "step (Wait g3) (in_burst p r v1 (Some ''ArrowRight'') (int g1 + int g2) (int g1 + int g2) 4)
              = in_burst p r v1 (Some ''ArrowRight'') (int g1 + int g2) (int g1 + int g2 + int g3) 4"
    using burst_wait[of "int g1 + int g2" g3 p r v1 "Some ''ArrowRight''" "int g1 + int g2" 4] assms(5)
    by (simp add: step_def)
  have s7: "step (KeyDown ''ArrowRight'')
              (in_burst p r v1 (Some ''ArrowRight'') (int g1 + int g2) (int g1 + int g2 + int g3) 4)
              = in_burst p r v1 (Some ''ArrowRight'') (int g1 + int g2 + int g3)
                  (int g1 + int g2 + int g3) 5"
    using burst_press[of "int g1 + int g2" "int g1 + int g2 + int g3" p r v1 "Some ''ArrowRight''" 4]
      assms(5) mb
    by (simp add: step_def eval_nat_numeral)
  have s8: "step (Wait g4)
              (in_burst p r v1 (Some ''ArrowRight'') (int g1 + int g2 + int g3)
                  (int g1 + int g2 + int g3) 5)
              = in_burst p r v1 (Some ''ArrowRight'') (int g1 + int g2 + int g3) G 5"
    using burst_wait[of "int g1 + int g2 + int g3" g4 p r v1 "Some ''ArrowRight''"
        "int g1 + int g2 + int g3" 5] assms(5)
    by (simp add: step_def G_def)
  have s9: "step (KeyDown ''ArrowRight'')
              (in_burst p r v1 (Some ''ArrowRight'') (int g1 + int g2 + int g3) G 5)
              = in_burst p r v1 (Some ''ArrowRight'') G G 6"
    using burst_press[of "int g1 + int g2 + int g3" G p r v1 "Some ''ArrowRight''" 5] G mb
    by (simp add: step_def eval_nat_numeral G_def)
  have e1: "advance (nat (50 - G)) (in_burst p r v1 (Some ''ArrowRight'') G G 6)
              = after_burst p r v1 G 8"
    using burst_trailing_edge[of G G p r v1 6] G assms(1,2) by (simp add: eval_nat_numeral)
  have q: "quiet [OnSlide v1, OnSlide (forward p v1), OnStop (forward p v1)] (forward p v1)
             (advance 250 (after_burst p r v1 G 8))"
    using after_burst_250[OF assms(3), of r v1 G 8] by (simp add: quiet_def keyboard_idle_def)
  have "step (Wait w) (in_burst p r v1 (Some ''ArrowRight'') G G 6)
          = advance w' (advance 250 (after_burst p r v1 G 8))"
    by (simp add: step_def w advance_add e1)
  then have fin: "quiet [OnSlide v1, OnSlide (forward p v1), OnStop (forward p v1)] (forward p v1)
             (step (Wait w) (in_burst p r v1 (Some ''ArrowRight'') G G 6))"
    using quiet_advance[OF q, of w'] by simp
  have run: "run [KeyDown ''ArrowRight'', Wait g1, KeyDown ''ArrowRight'', Wait g2,
            KeyDown ''ArrowRight'', Wait g3, KeyDown ''ArrowRight'', Wait g4,
            KeyDown ''ArrowRight'', Wait w] (mount r p)
          = step (Wait w) (in_burst p r v1 (Some ''ArrowRight'') G G 6)"
    by (simp add: run_def s1 s2 s3 s4 s5 s6 s7 s8 s9)
  have v1: "v1 = Num (min (props_value p + 1) (upper_stop p))"
    unfolding v1_def using assms(4) by (rule forward_Num)
  have v2: "forward p v1 = Num (min (props_value p + 2) (upper_stop p))"
    unfolding v1_def using assms(4) by (rule forward_forward_Num)
  have v2': "forward p (Num (min (props_value p + 1) (upper_stop p)))
               = Num (min (props_value p + 2) (upper_stop p))"
    using v2 by (simp add: v1)
  from fin show ?thesis unfolding run quiet_def by (simp add: v1 v2')
qed

theorem burst_of_five_presses_witness:
  "\<not> disabled bounded_props \<and> onSlide bounded_props \<and> onStop bounded_props \<and>
   props_value bounded_props \<le> stopCount bounded_props - 1 \<and>
   (5::nat) + 10 + 15 + 12 < 50 \<and> (300::nat) \<le> 5 + 10 + 15 + 12 + 258 \<and>
   state_value (state (run [KeyDown ''ArrowRight'', Wait 5, KeyDown ''ArrowRight'', Wait 10,
       KeyDown ''ArrowRight'', Wait 15, KeyDown ''ArrowRight'', Wait 12,
       KeyDown ''ArrowRight'', Wait 258] (mount track_rect bounded_props))) = Num 7 \<and>
   calls (run [KeyDown ''ArrowRight'', Wait 5, KeyDown ''ArrowRight'', Wait 10,
       KeyDown ''ArrowRight'', Wait 15, KeyDown ''ArrowRight'', Wait 12,
       KeyDown ''ArrowRight'', Wait 258] (mount track_rect bounded_props))
     = [OnSlide (Num 6), OnSlide (Num 7), OnStop (Num 7)]"
  using burst_of_five_presses[of bounded_props 5 10 15 12 258 track_rect]
  by (simp add: bounded_props_def upper_stop_def)

subsection \<open>The debounced notification\<close>
























end
